theory Spec2Isabelle
  imports Complex_Main "HOL-Library.Multiset" "HOL-Library.Sublist"
begin

section \<open>Python values used by ebird_map.py\<close>

text \<open>
  Exceptions are values: every operation of the script that can raise returns
  \<open>py_error + 'a\<close>, with \<open>Inl\<close> for the exception.
\<close>

datatype py_error = ValueError | TypeError | OverflowError | ZeroDivisionError

subsection \<open>Floats\<close>

text \<open>
  A Python float is an IEEE 754 binary64 value. A finite one is represented by the
  rational number it denotes; the two zeros are one value \<open>Fin 0\<close> (they compare equal,
  are both falsy and both truncate to 0, which is all the script observes of them).
  \<open>float_of_rat\<close> is the rounding every float operation applies to its exact result:
  to the nearest value with a 53-bit significand, ties to even, exponent at least
  \<open>-1074\<close> for the unit in the last place, and infinity from \<open>2 ^ 1024\<close> on.
\<close>

datatype pyfloat = Fin rat | PInf | NInf | NaN

fun log2_floor :: "nat \<Rightarrow> nat" where
  "log2_floor n = (if n < 2 then 0 else Suc (log2_floor (n div 2)))"

declare log2_floor.simps [simp del]

definition ilog2 :: "rat \<Rightarrow> int" where
  "ilog2 q = (if 1 \<le> q then int (log2_floor (nat \<lfloor>q\<rfloor>))
              else - int (Suc (log2_floor (nat (\<lceil>1 / q\<rceil> - 1)))))"

definition round_half_even :: "rat \<Rightarrow> int" where
  "round_half_even r =
     (let f = \<lfloor>r\<rfloor>; d = r - of_int f
      in if d < 1 / 2 then f else if 1 / 2 < d then f + 1 else if even f then f else f + 1)"

definition float_of_rat :: "rat \<Rightarrow> pyfloat" where
  "float_of_rat q =
     (if q = 0 then Fin 0
      else let p = max (ilog2 \<bar>q\<bar> - 52) (- 1074);
               v = of_int (round_half_even (q / 2 powi p)) * 2 powi p
           in if 2 powi 1024 \<le> \<bar>v\<bar> then (if 0 < q then PInf else NInf) else Fin v)"

text \<open>\<^verbatim>\<open>x == y\<close> on floats: a NaN equals nothing, itself included.\<close>

fun float_eq :: "pyfloat \<Rightarrow> pyfloat \<Rightarrow> bool" where
  "float_eq NaN y = False"
| "float_eq x NaN = False"
| "float_eq x y = (x = y)"

text \<open>\<^verbatim>\<open>bool(x)\<close> on a float: only zero is falsy.\<close>

definition float_truthy :: "pyfloat \<Rightarrow> bool" where
  "float_truthy x = (x \<noteq> Fin 0)"

text \<open>
  \<^verbatim>\<open>round(x, 5)\<close>: the exact value of \<open>x\<close> rounded to five decimal places, ties to
  even, and the result rounded to a float; infinities and NaN round to themselves.
\<close>

fun py_round5 :: "pyfloat \<Rightarrow> pyfloat" where
  "py_round5 (Fin q) = float_of_rat (of_int (round_half_even (q * 100000)) / 100000)"
| "py_round5 x = x"

subsection \<open>Dynamically typed values\<close>

text \<open>
  The values \<^verbatim>\<open>json.loads\<close> produces, which are also the values a sighting dict holds.
  \<open>py_truthy\<close> is \<^verbatim>\<open>bool(v)\<close>; \<open>py_and\<close> is \<^verbatim>\<open>a and b\<close>, which returns an operand.
\<close>

datatype pyval =
    PNone
  | PBool bool
  | PInt int
  | PFloat pyfloat
  | PStr string
  | PList "pyval list"
  | PDict "(string \<times> pyval) list"

fun py_truthy :: "pyval \<Rightarrow> bool" where
  "py_truthy PNone = False"
| "py_truthy (PBool b) = b"
| "py_truthy (PInt n) = (n \<noteq> 0)"
| "py_truthy (PFloat x) = float_truthy x"
| "py_truthy (PStr s) = (s \<noteq> [])"
| "py_truthy (PList vs) = (vs \<noteq> [])"
| "py_truthy (PDict kvs) = (kvs \<noteq> [])"

definition py_and :: "pyval \<Rightarrow> pyval \<Rightarrow> pyval" where
  "py_and a b = (if py_truthy a then b else a)"

section \<open>Sighting records\<close>

text \<open>
  The dict built at lines 63-75 by the text extractor and at lines 163-175 by the API
  adapter. Both store \<^verbatim>\<open>None\<close> or a float under \<^verbatim>\<open>"lat"\<close> and \<^verbatim>\<open>"lon"\<close> and strings
  under \<^verbatim>\<open>"count"\<close>, \<^verbatim>\<open>"date"\<close>, \<^verbatim>\<open>"comments"\<close> and \<^verbatim>\<open>"checklist"\<close>; the other entries
  hold whatever the API sent, so they are dynamically typed.
\<close>

record sighting =
  species :: pyval
  scientific :: pyval
  count_s :: string
  confirmed :: pyval
  location :: pyval
  lat :: "pyfloat option"
  lon :: "pyfloat option"
  date :: string
  observer :: pyval
  comments :: string
  checklist :: string

text \<open>The record a header line starts (lines 63-75).\<close>

definition new_sighting :: "string \<Rightarrow> string \<Rightarrow> string \<Rightarrow> bool \<Rightarrow> sighting" where
  "new_sighting name sci cnt conf =
     \<lparr>species = PStr name, scientific = PStr sci, count_s = cnt, confirmed = PBool conf,
      location = PStr [], lat = None, lon = None, date = [], observer = PStr [],
      comments = [], checklist = []\<rparr>"

section \<open>group_sightings (lines 182-188)\<close>

text \<open>
  \<^verbatim>\<open>groups = defaultdict(list)\<close> is an insertion-ordered dict: a list of (key, records)
  pairs with no key twice. \<^verbatim>\<open>groups[key].append(s)\<close> appends to the entry whose key
  compares equal, or adds a new entry at the end. The keys are tuples of floats,
  compared component by component with \<^verbatim>\<open>==\<close>. \<^verbatim>\<open>round(None, 5)\<close> raises TypeError.
\<close>

type_synonym group_key = "pyfloat \<times> pyfloat"

type_synonym groups = "(group_key \<times> sighting list) list"

definition key_eq :: "group_key \<Rightarrow> group_key \<Rightarrow> bool" where
  "key_eq k k' = (float_eq (fst k) (fst k') \<and> float_eq (snd k) (snd k'))"

fun append_to_group :: "group_key \<Rightarrow> sighting \<Rightarrow> groups \<Rightarrow> groups" where
  "append_to_group k s [] = [(k, [s])]"
| "append_to_group k s ((k', g) # gs) =
     (if key_eq k' k then (k', g @ [s]) # gs else (k', g) # append_to_group k s gs)"

definition group_key :: "sighting \<Rightarrow> py_error + group_key" where
  "group_key s =
     (case lat s of
        None \<Rightarrow> Inl TypeError
      | Some la \<Rightarrow>
          (case lon s of
             None \<Rightarrow> Inl TypeError
           | Some lo \<Rightarrow> Inr (py_round5 la, py_round5 lo)))"

fun group_loop ::
  "sighting list \<Rightarrow> groups \<Rightarrow> py_error + groups"
where
  "group_loop [] groups = Inr groups"
| "group_loop (s # ss) groups =
     (case group_key s of
        Inl e \<Rightarrow> Inl e
      | Inr k \<Rightarrow> group_loop ss (append_to_group k s groups))"

definition group_sightings ::
  "sighting list \<Rightarrow> py_error + groups"
where
  "group_sightings sightings = group_loop sightings []"

text \<open>The keys of a list in the order of their first occurrence.\<close>

definition first_seen :: "'a list \<Rightarrow> 'a list" where
  "first_seen ks = rev (remdups (rev ks))"

text \<open>
  What grouping by key means: for each key, in the order the keys are first seen, the
  records with that key in input order. Used to state the property of the loop.
\<close>

definition grouped ::
  "sighting list \<Rightarrow> group_key list \<Rightarrow> groups"
where
  "grouped zs ks = map (\<lambda>k. (k, filter (\<lambda>s. group_key s = Inr k) zs)) (first_seen ks)"

section \<open>Strings\<close>

text \<open>
  A \<open>char\<close> stands for the code point of the same number, so a \<open>string\<close> is a Python
  \<^verbatim>\<open>str\<close> whose code points lie below 256. The character classes are Python's on that
  range: \<^verbatim>\<open>str.isspace\<close> (which \<^verbatim>\<open>str.strip\<close> and the pattern \<^verbatim>\<open>\s\<close> use), the decimal digits
  (\<^verbatim>\<open>\d\<close>) and the line boundaries of \<^verbatim>\<open>str.splitlines\<close>.
\<close>

definition ord :: "char \<Rightarrow> nat" where
  "ord c = of_char c"

definition is_space :: "char \<Rightarrow> bool" where
  "is_space c = ((9 \<le> ord c \<and> ord c \<le> 13) \<or> (28 \<le> ord c \<and> ord c \<le> 32) \<or> ord c = 133 \<or> ord c = 160)"

definition is_digit :: "char \<Rightarrow> bool" where
  "is_digit c = (48 \<le> ord c \<and> ord c \<le> 57)"

definition is_linebreak :: "char \<Rightarrow> bool" where
  "is_linebreak c = ((10 \<le> ord c \<and> ord c \<le> 13) \<or> (28 \<le> ord c \<and> ord c \<le> 30) \<or> ord c = 133)"

definition strip :: "string \<Rightarrow> string" where
  "strip s = rev (dropWhile is_space (rev (dropWhile is_space s)))"

text \<open>\<^verbatim>\<open>s.lstrip(cs)\<close> and \<^verbatim>\<open>s.strip(cs)\<close> with a set of characters.\<close>

definition lstrip_chars :: "string \<Rightarrow> string \<Rightarrow> string" where
  "lstrip_chars cs s = dropWhile (\<lambda>c. c \<in> set cs) s"

definition strip_chars :: "string \<Rightarrow> string \<Rightarrow> string" where
  "strip_chars cs s = rev (dropWhile (\<lambda>c. c \<in> set cs) (rev (dropWhile (\<lambda>c. c \<in> set cs) s)))"

definition startswith :: "string \<Rightarrow> string \<Rightarrow> bool" where
  "startswith s p = (take (length p) s = p)"

text \<open>\<^verbatim>\<open>s.split(":", 1)[-1]\<close>: what follows the first colon, or all of \<open>s\<close> without one.\<close>

definition after_first_colon :: "string \<Rightarrow> string" where
  "after_first_colon s = (case dropWhile (\<lambda>c. c \<noteq> CHR '':'') s of [] \<Rightarrow> s | c # r \<Rightarrow> r)"

text \<open>
  \<^verbatim>\<open>s.splitlines()\<close>: the lines without their boundaries; \<^verbatim>\<open>\r\n\<close> is one boundary, and
  a boundary at the very end starts no further line.
\<close>

fun splitlines_from :: "string \<Rightarrow> string \<Rightarrow> string list" where
  "splitlines_from cur [] = (if cur = [] then [] else [cur])"
| "splitlines_from cur (c # cs) =
     (if c = CHR 0x0D \<and> (case cs of [] \<Rightarrow> False | d # ds \<Rightarrow> d = CHR 0x0A)
        then cur # splitlines_from [] (tl cs)
      else if is_linebreak c then cur # splitlines_from [] cs
      else splitlines_from (cur @ [c]) cs)"

definition splitlines :: "string \<Rightarrow> string list" where
  "splitlines s = splitlines_from [] s"

section \<open>Regular expressions\<close>

text \<open>
  The fragment of \<^verbatim>\<open>re\<close> the three patterns of \<open>parse_sightings\<close> use, with the matching
  order of a backtracking matcher: \<open>run r s st\<close> lists every way \<open>r\<close> can match at state
  \<open>st\<close> (the rest of the subject \<open>s\<close> still to read, and the groups captured so far), in
  the order the matcher tries them. A greedy repetition tries the longest run first, a
  lazy one the shortest; an optional part is tried present before absent. The match
  \<^verbatim>\<open>re\<close> reports is the first of the list.
\<close>

datatype cclass = AnyChar | Space | Digit | Upper | Lower | Ch char

fun cmatch :: "cclass \<Rightarrow> char \<Rightarrow> bool" where
  "cmatch AnyChar c = (c \<noteq> CHR 0x0A)"
| "cmatch Space c = is_space c"
| "cmatch Digit c = is_digit c"
| "cmatch Upper c = (65 \<le> ord c \<and> ord c \<le> 90)"
| "cmatch Lower c = (97 \<le> ord c \<and> ord c \<le> 122)"
| "cmatch (Ch d) c = (c = d)"

datatype regex =
    Eps
  | Sym cclass
  | Rep cclass nat bool
  | Seq regex regex
  | Opt regex
  | Group nat regex
  | NotAhead regex
  | Bol
  | Eol

type_synonym caps = "nat \<Rightarrow> string option"

type_synonym mstate = "string \<times> caps"

primrec run :: "regex \<Rightarrow> string \<Rightarrow> mstate \<Rightarrow> mstate list" where
  "run Eps s = (\<lambda>st. [st])"
| "run (Sym cl) s = (\<lambda>st.
     case fst st of
       [] \<Rightarrow> []
     | c # cs \<Rightarrow> if cmatch cl c then [(cs, snd st)] else [])"
| "run (Rep cl least greedy) s = (\<lambda>st.
     let most = length (takeWhile (cmatch cl) (fst st));
         counts = (if greedy then rev [least..<Suc most] else [least..<Suc most])
     in map (\<lambda>n. (drop n (fst st), snd st)) counts)"
| "run (Seq a b) s = (\<lambda>st. concat (map (run b s) (run a s st)))"
| "run (Opt r) s = (\<lambda>st. run r s st @ [st])"
| "run (Group n r) s = (\<lambda>st.
     map (\<lambda>st'. (fst st', (snd st')(n \<mapsto> take (length (fst st) - length (fst st')) (fst st))))
       (run r s st))"
| "run (NotAhead r) s = (\<lambda>st. case run r s st of [] \<Rightarrow> [st] | m # ms \<Rightarrow> [])"
| "run Bol s = (\<lambda>st. if length (fst st) = length s then [st] else [])"
| "run Eol s = (\<lambda>st. if fst st = [] \<or> fst st = [CHR 0x0A] then [st] else [])"

fun seq :: "regex list \<Rightarrow> regex" where
  "seq [] = Eps"
| "seq (r # rs) = Seq r (seq rs)"

definition lit :: "string \<Rightarrow> regex" where
  "lit s = seq (map (\<lambda>c. Sym (Ch c)) s)"

text \<open>\<^verbatim>\<open>re.match\<close> tries the pattern at the start; \<^verbatim>\<open>re.search\<close> at each position in turn.\<close>

definition re_match :: "regex \<Rightarrow> string \<Rightarrow> caps option" where
  "re_match r s = (case run r s (s, Map.empty) of [] \<Rightarrow> None | m # ms \<Rightarrow> Some (snd m))"

fun search_from :: "regex \<Rightarrow> string \<Rightarrow> string \<Rightarrow> caps option" where
  "search_from r s [] = (case run r s ([], Map.empty) of [] \<Rightarrow> None | m # ms \<Rightarrow> Some (snd m))"
| "search_from r s (c # cs) =
     (case run r s (c # cs, Map.empty) of [] \<Rightarrow> search_from r s cs | m # ms \<Rightarrow> Some (snd m))"

definition re_search :: "regex \<Rightarrow> string \<Rightarrow> caps option" where
  "re_search r s = search_from r s s"

text \<open>
  \<^verbatim>\<open>m.group(n)\<close> where the value is used as a string: a group that took no part in the
  match is \<^verbatim>\<open>None\<close>, which \<^verbatim>\<open>or\<close> and \<^verbatim>\<open>bool\<close> treat like the empty string.
\<close>

definition group :: "caps \<Rightarrow> nat \<Rightarrow> string" where
  "group m n = (case m n of None \<Rightarrow> [] | Some g \<Rightarrow> g)"

text \<open>
  Two notions for reasoning about \<open>run\<close>: the texts a pattern can consume (lookaheads
  and anchors consume nothing), and the groups a pattern can set.
\<close>

primrec accepts :: "regex \<Rightarrow> string \<Rightarrow> bool" where
  "accepts Eps w = (w = [])"
| "accepts (Sym cl) w = (\<exists>c. w = [c] \<and> cmatch cl c)"
| "accepts (Rep cl least greedy) w = (least \<le> length w \<and> list_all (cmatch cl) w)"
| "accepts (Seq a b) w = (\<exists>u v. w = u @ v \<and> accepts a u \<and> accepts b v)"
| "accepts (Opt r) w = (w = [] \<or> accepts r w)"
| "accepts (Group n r) w = accepts r w"
| "accepts (NotAhead r) w = (w = [])"
| "accepts Bol w = (w = [])"
| "accepts Eol w = (w = [])"

primrec caps_of :: "regex \<Rightarrow> nat set" where
  "caps_of Eps = {}"
| "caps_of (Sym cl) = {}"
| "caps_of (Rep cl least greedy) = {}"
| "caps_of (Seq a b) = caps_of a \<union> caps_of b"
| "caps_of (Opt r) = caps_of r"
| "caps_of (Group n r) = insert n (caps_of r)"
| "caps_of (NotAhead r) = {}"
| "caps_of Bol = {}"
| "caps_of Eol = {}"

section \<open>parse_sightings (lines 46-106)\<close>

text \<open>
  \<^verbatim>\<open>^(?!- )(.+?)\s+\(([A-Z][a-z].*?)\)\s*(?:\((\d+)\))?\s*(CONFIRMED)?$\<close>
\<close>

definition header_re :: regex where
  "header_re = seq
     [Bol, NotAhead (lit ''- ''), Group 1 (Rep AnyChar 1 False), Rep Space 1 True,
      Sym (Ch CHR ''(''), Group 2 (seq [Sym Upper, Sym Lower, Rep AnyChar 0 False]),
      Sym (Ch CHR '')''), Rep Space 0 True,
      Opt (seq [Sym (Ch CHR ''(''), Group 3 (Rep Digit 1 True), Sym (Ch CHR '')'')]),
      Rep Space 0 True, Opt (Group 4 (lit ''CONFIRMED'')), Eol]"

text \<open>\<^verbatim>\<open>- Reported (.+?) by (.+)$\<close>\<close>

definition reported_re :: regex where
  "reported_re = seq
     [lit ''- Reported '', Group 1 (Rep AnyChar 1 False), lit '' by '',
      Group 2 (Rep AnyChar 1 True), Eol]"

text \<open>\<^verbatim>\<open>q=(-?\d+\.?\d*),(-?\d+\.?\d*)\<close>\<close>

definition number_re :: regex where
  "number_re = seq [Opt (Sym (Ch CHR ''-'')), Rep Digit 1 True, Opt (Sym (Ch CHR ''.'')), Rep Digit 0 True]"

definition coords_re :: regex where
  "coords_re = seq [lit ''q='', Group 1 number_re, Sym (Ch CHR '',''), Group 2 number_re]"

text \<open>
  \<^verbatim>\<open>float(s)\<close> on the strings the coordinate pattern captures: an optional minus sign,
  digits, and optionally a point and more digits; the value is the decimal number
  rounded to a float. This is \<^verbatim>\<open>float\<close> on that syntax only: every other string is
  reported as ValueError here, although Python accepts more (exponents, a leading
  point, surrounding whitespace, \<^verbatim>\<open>inf\<close>, \<^verbatim>\<open>nan\<close>).
\<close>

definition digits_value :: "string \<Rightarrow> nat" where
  "digits_value ds = foldl (\<lambda>n c. 10 * n + (ord c - 48)) 0 ds"

definition decimal_value :: "bool \<Rightarrow> string \<Rightarrow> string \<Rightarrow> rat" where
  "decimal_value negative ip fp =
     (if negative then - 1 else 1) *
     (of_nat (digits_value ip) + of_nat (digits_value fp) / 10 ^ length fp)"

definition unsigned_float :: "bool \<Rightarrow> string \<Rightarrow> py_error + pyfloat" where
  "unsigned_float negative body =
     (let ip = takeWhile is_digit body;
          rest = dropWhile is_digit body
      in if ip = [] then Inl ValueError
         else (case rest of
                 [] \<Rightarrow> Inr (float_of_rat (decimal_value negative ip []))
               | c # fp \<Rightarrow>
                   if c = CHR ''.'' \<and> list_all is_digit fp
                   then Inr (float_of_rat (decimal_value negative ip fp))
                   else Inl ValueError))"

definition py_float :: "string \<Rightarrow> py_error + pyfloat" where
  "py_float s =
     (case s of
        [] \<Rightarrow> Inl ValueError
      | c # cs \<Rightarrow> if c = CHR ''-'' then unsigned_float True cs else unsigned_float False s)"

text \<open>
  The loop state: \<^verbatim>\<open>current\<close> (\<open>None\<close> for the empty dict \<^verbatim>\<open>{}\<close>) and \<^verbatim>\<open>sightings\<close>.
  \<open>lat_truthy\<close> is the test \<^verbatim>\<open>if current.get("lat")\<close> of lines 61 and 103 for a non-empty
  \<^verbatim>\<open>current\<close>: the truth value of the entry. For the empty dict the test is false.
\<close>

type_synonym parse_state = "sighting option \<times> sighting list"

definition lat_truthy :: "sighting \<Rightarrow> bool" where
  "lat_truthy cur = (case lat cur of None \<Rightarrow> False | Some x \<Rightarrow> float_truthy x)"

text \<open>Lines 61-62 and 103-104: append \<^verbatim>\<open>current\<close> when the test holds.\<close>

definition flush :: "parse_state \<Rightarrow> sighting list" where
  "flush st =
     (case fst st of
        None \<Rightarrow> snd st
      | Some cur \<Rightarrow> if lat_truthy cur then snd st @ [cur] else snd st)"

text \<open>Lines 81-101, for a non-empty \<^verbatim>\<open>current\<close>.\<close>

definition update_current :: "sighting \<Rightarrow> string \<Rightarrow> py_error + sighting" where
  "update_current cur line =
     (if startswith line ''- Reported '' then
        (case re_match reported_re line of
           None \<Rightarrow> Inr cur
         | Some rm \<Rightarrow> Inr (cur\<lparr>date := group rm 1, observer := PStr (group rm 2)\<rparr>))
      else if startswith line ''- Map:'' then
        (case re_search coords_re line of
           None \<Rightarrow> Inr cur
         | Some coords \<Rightarrow>
             (case py_float (group coords 1) of
                Inl e \<Rightarrow> Inl e
              | Inr la \<Rightarrow>
                  (case py_float (group coords 2) of
                     Inl e \<Rightarrow> Inl e
                   | Inr lo \<Rightarrow> Inr (cur\<lparr>lat := Some la, lon := Some lo\<rparr>))))
      else if startswith line ''- Checklist:'' then
        Inr (cur\<lparr>checklist := strip (after_first_colon line)\<rparr>)
      else if startswith line ''- Comments:'' then
        Inr (cur\<lparr>comments := strip_chars [CHR 0x22] (strip (after_first_colon line))\<rparr>)
      else if \<not> startswith line ''- Media:'' \<and> \<not> startswith line ''- Map:''
              \<and> \<not> startswith line ''***'' \<and> \<not> startswith line ''---''
              \<and> lat cur = None \<and> startswith line ''- '' then
        (let loc = strip (lstrip_chars ''- '' line)
         in if loc \<noteq> [] \<and> \<not> py_truthy (location cur) then Inr (cur\<lparr>location := PStr loc\<rparr>)
            else Inr cur)
      else Inr cur)"

text \<open>One iteration of the loop over the lines (lines 55-101).\<close>

definition process_line :: "parse_state \<Rightarrow> string \<Rightarrow> py_error + parse_state" where
  "process_line st raw =
     (let line = strip raw
      in case re_match header_re line of
           Some m \<Rightarrow>
             Inr (Some (new_sighting (group m 1) (group m 2)
                          (if group m 3 = [] then ''?'' else group m 3) (group m 4 \<noteq> [])),
                  flush st)
         | None \<Rightarrow>
             (case fst st of
                None \<Rightarrow> Inr st
              | Some cur \<Rightarrow>
                  (case update_current cur line of
                     Inl e \<Rightarrow> Inl e
                   | Inr cur' \<Rightarrow> Inr (Some cur', snd st))))"

fun parse_lines :: "string list \<Rightarrow> parse_state \<Rightarrow> py_error + parse_state" where
  "parse_lines [] st = Inr st"
| "parse_lines (raw # raws) st =
     (case process_line st raw of
        Inl e \<Rightarrow> Inl e
      | Inr st' \<Rightarrow> parse_lines raws st')"

definition parse_sightings :: "string \<Rightarrow> py_error + sighting list" where
  "parse_sightings body =
     (case parse_lines (splitlines body) (None, []) of
        Inl e \<Rightarrow> Inl e
      | Inr st \<Rightarrow> Inr (flush st))"

section \<open>Dates and the library's date functions\<close>

text \<open>
  A \<^verbatim>\<open>date\<close> is represented by its proleptic Gregorian ordinal (\<^verbatim>\<open>date.toordinal()\<close>,
  from 1 for 0001-01-01 to 3652059 for 9999-12-31): dates compare as their ordinals do,
  and \<^verbatim>\<open>(a - b).days\<close> is the difference of the ordinals. A \<^verbatim>\<open>datetime\<close> is a date with
  a time of day.

  \<^verbatim>\<open>datetime.strptime\<close> and \<^verbatim>\<open>datetime.strftime\<close> belong to the standard library, not to
  the script; the functions that call them take them as parameters.
\<close>

type_synonym pydate = int

record datetime =
  dt_date :: pydate
  dt_hour :: nat
  dt_minute :: nat

record pylib =
  strptime :: "string \<Rightarrow> string \<Rightarrow> py_error + datetime"
  strftime :: "datetime \<Rightarrow> string \<Rightarrow> py_error + string"

text \<open>\<^verbatim>\<open>max(xs)\<close> and \<^verbatim>\<open>min(xs)\<close>; ValueError on an empty sequence.\<close>

fun py_max :: "int list \<Rightarrow> py_error + int" where
  "py_max [] = Inl ValueError"
| "py_max (x # xs) = Inr (fold max xs x)"

fun py_min :: "int list \<Rightarrow> py_error + int" where
  "py_min [] = Inl ValueError"
| "py_min (x # xs) = Inr (fold min xs x)"

text \<open>
  \<^verbatim>\<open>d - timedelta(days=n)\<close>: the timedelta constructor and the subtraction both raise
  OverflowError out of range.
\<close>

definition date_minus_days :: "pydate \<Rightarrow> int \<Rightarrow> py_error + pydate" where
  "date_minus_days d n =
     (if \<bar>n\<bar> > 999999999 then Inl OverflowError
      else if d - n < 1 \<or> 3652059 < d - n then Inl OverflowError
      else Inr (d - n))"

section \<open>age_color (lines 220-226)\<close>

text \<open>
  The argument is a float (the quotient at lines 266 and 283) or the int 0 (line 266).
  \<^verbatim>\<open>k * x\<close> and \<^verbatim>\<open>k + x\<close> with an int \<open>k\<close> stay in the ints for an int \<open>x\<close> and convert \<open>k\<close>
  to a float for a float \<open>x\<close>; the ints converted here are the literals of lines 223-225,
  which floats represent exactly. Float multiplication and addition round their exact
  result and do not raise.
\<close>

datatype pynum = PyInt int | PyFloat pyfloat

fun float_mul :: "pyfloat \<Rightarrow> pyfloat \<Rightarrow> pyfloat" where
  "float_mul (Fin a) (Fin b) = float_of_rat (a * b)"
| "float_mul NaN y = NaN"
| "float_mul x NaN = NaN"
| "float_mul (Fin a) PInf = (if a = 0 then NaN else if 0 < a then PInf else NInf)"
| "float_mul (Fin a) NInf = (if a = 0 then NaN else if 0 < a then NInf else PInf)"
| "float_mul PInf (Fin b) = (if b = 0 then NaN else if 0 < b then PInf else NInf)"
| "float_mul NInf (Fin b) = (if b = 0 then NaN else if 0 < b then NInf else PInf)"
| "float_mul PInf PInf = PInf"
| "float_mul PInf NInf = NInf"
| "float_mul NInf PInf = NInf"
| "float_mul NInf NInf = PInf"

fun float_add :: "pyfloat \<Rightarrow> pyfloat \<Rightarrow> pyfloat" where
  "float_add (Fin a) (Fin b) = float_of_rat (a + b)"
| "float_add NaN y = NaN"
| "float_add x NaN = NaN"
| "float_add PInf NInf = NaN"
| "float_add NInf PInf = NaN"
| "float_add PInf y = PInf"
| "float_add NInf y = NInf"
| "float_add x PInf = PInf"
| "float_add x NInf = NInf"

fun int_times :: "int \<Rightarrow> pynum \<Rightarrow> pynum" where
  "int_times k (PyInt n) = PyInt (k * n)"
| "int_times k (PyFloat x) = PyFloat (float_mul (Fin (of_int k)) x)"

fun int_plus :: "int \<Rightarrow> pynum \<Rightarrow> pynum" where
  "int_plus k (PyInt n) = PyInt (k + n)"
| "int_plus k (PyFloat x) = PyFloat (float_add (Fin (of_int k)) x)"

text \<open>\<^verbatim>\<open>int(x)\<close>: truncation toward zero; infinities and NaN raise.\<close>

fun py_int :: "pynum \<Rightarrow> py_error + int" where
  "py_int (PyInt n) = Inr n"
| "py_int (PyFloat (Fin q)) = Inr (if 0 \<le> q then \<lfloor>q\<rfloor> else \<lceil>q\<rceil>)"
| "py_int (PyFloat PInf) = Inl OverflowError"
| "py_int (PyFloat NInf) = Inl OverflowError"
| "py_int (PyFloat NaN) = Inl ValueError"

text \<open>
  \<^verbatim>\<open>f"{n:02x}"\<close>: lowercase hexadecimal, padded with zeros to width 2; a minus sign
  counts toward the width.
\<close>

definition hex_digit :: "nat \<Rightarrow> char" where
  "hex_digit d = ''0123456789abcdef'' ! d"

fun hex :: "nat \<Rightarrow> string" where
  "hex n = (if n < 16 then [hex_digit n] else hex (n div 16) @ [hex_digit (n mod 16)])"

declare hex.simps [simp del]

definition format_02x :: "int \<Rightarrow> string" where
  "format_02x n =
     (if n < 0 then CHR ''-'' # hex (nat (- n))
      else if n < 16 then CHR ''0'' # hex (nat n)
      else hex (nat n))"

text \<open>One colour channel: \<^verbatim>\<open>int(newest + (oldest - newest) * age_fraction)\<close>.\<close>

definition channel :: "int \<Rightarrow> int \<Rightarrow> pynum \<Rightarrow> py_error + int" where
  "channel newest oldest age_fraction =
     py_int (int_plus newest (int_times (oldest - newest) age_fraction))"

definition age_color :: "pynum \<Rightarrow> py_error + string" where
  "age_color age_fraction =
     (case channel 231 44 age_fraction of
        Inl e \<Rightarrow> Inl e
      | Inr r \<Rightarrow>
          (case channel 76 62 age_fraction of
             Inl e \<Rightarrow> Inl e
           | Inr g \<Rightarrow>
               (case channel 60 80 age_fraction of
                  Inl e \<Rightarrow> Inl e
                | Inr b \<Rightarrow> Inr (CHR ''#'' # format_02x r @ format_02x g @ format_02x b))))"

section \<open>The API adapter: the loop of fetch_sightings (lines 137-177)\<close>

text \<open>
  An observation is a JSON object: a dict from strings to values. \<open>obs_get\<close> is
  \<^verbatim>\<open>obs.get(key, default)\<close>. \<^verbatim>\<open>str\<close> of a value and \<^verbatim>\<open>float\<close> of an arbitrary string belong
  to the language and are parameters, like the date functions.
\<close>

type_synonym observation = "string \<Rightarrow> pyval option"

definition obs_get :: "observation \<Rightarrow> string \<Rightarrow> pyval \<Rightarrow> pyval" where
  "obs_get obs key dflt = (case obs key of None \<Rightarrow> dflt | Some v \<Rightarrow> v)"

record pylang =
  str_of :: "pyval \<Rightarrow> string"
  float_of_str :: "string \<Rightarrow> py_error + pyfloat"

text \<open>
  \<^verbatim>\<open>float(v)\<close>: a bool or an int is converted (an int too large raises OverflowError), a
  float is returned, a string is parsed, anything else is a TypeError.
\<close>

fun float_of_val :: "pylang \<Rightarrow> pyval \<Rightarrow> py_error + pyfloat" where
  "float_of_val lang (PBool b) = Inr (Fin (if b then 1 else 0))"
| "float_of_val lang (PInt n) =
     (case float_of_rat (of_int n) of Fin q \<Rightarrow> Inr (Fin q) | x \<Rightarrow> Inl OverflowError)"
| "float_of_val lang (PFloat x) = Inr x"
| "float_of_val lang (PStr s) = float_of_str lang s"
| "float_of_val lang v = Inl TypeError"

text \<open>
  Lines 151-158: the loop over the two formats. \<^verbatim>\<open>strptime\<close> and \<^verbatim>\<open>strftime\<close> both run
  inside the \<^verbatim>\<open>try\<close>; a ValueError from either moves on to the next format, any other
  exception leaves the function. \<^verbatim>\<open>strptime\<close> of a value that is no string is a TypeError.
\<close>

fun reformat_date :: "pylib \<Rightarrow> pyval \<Rightarrow> string list \<Rightarrow> py_error + string" where
  "reformat_date lib obs_dt [] = Inr []"
| "reformat_date lib obs_dt (fmt # fmts) =
     (case (case obs_dt of
              PStr s \<Rightarrow>
                (case strptime lib s fmt of
                   Inl e \<Rightarrow> Inl e
                 | Inr dt \<Rightarrow> strftime lib dt ''%b %d, %Y %H:%M'')
            | v \<Rightarrow> Inl TypeError) of
        Inr date_str \<Rightarrow> Inr date_str
      | Inl ValueError \<Rightarrow> reformat_date lib obs_dt fmts
      | Inl e \<Rightarrow> Inl e)"

definition api_date :: "pylib \<Rightarrow> observation \<Rightarrow> py_error + string" where
  "api_date lib obs =
     (let obs_dt = obs_get obs ''obsDt'' (PStr [])
      in if py_truthy obs_dt then reformat_date lib obs_dt [''%Y-%m-%d %H:%M'', ''%Y-%m-%d'']
         else Inr [])"

definition api_confirmed :: "observation \<Rightarrow> pyval" where
  "api_confirmed obs =
     py_and (obs_get obs ''obsReviewed'' (PBool False)) (obs_get obs ''obsValid'' (PBool False))"

text \<open>
  The loop body: \<open>None\<close> for an observation that is skipped (line 142), the record that
  is appended otherwise.
\<close>

definition api_sighting :: "pylib \<Rightarrow> pylang \<Rightarrow> observation \<Rightarrow> py_error + sighting option" where
  "api_sighting lib lang obs =
     (let la = obs_get obs ''lat'' PNone; lng = obs_get obs ''lng'' PNone
      in if la = PNone \<or> lng = PNone then Inr None
         else
           (case api_date lib obs of
              Inl e \<Rightarrow> Inl e
            | Inr date_str \<Rightarrow>
                (let sub_id = obs_get obs ''subId'' (PStr []);
                     cnt = (if py_truthy (obs_get obs ''howMany'' PNone)
                            then str_of lang (obs_get obs ''howMany'' (PStr ''?'')) else ''?'')
                 in case float_of_val lang la of
                      Inl e \<Rightarrow> Inl e
                    | Inr flat \<Rightarrow>
                        (case float_of_val lang lng of
                           Inl e \<Rightarrow> Inl e
                         | Inr flng \<Rightarrow>
                             Inr (Some
                               \<lparr>species = obs_get obs ''comName'' (PStr ''Unknown''),
                                scientific = obs_get obs ''sciName'' (PStr []),
                                count_s = cnt,
                                confirmed = api_confirmed obs,
                                location = obs_get obs ''locName'' (PStr []),
                                lat = Some flat,
                                lon = Some flng,
                                date = date_str,
                                observer = obs_get obs ''userDisplayName'' (PStr []),
                                comments = [],
                                checklist =
                                  (if py_truthy sub_id
                                   then ''https://ebird.org/checklist/'' @ str_of lang sub_id
                                   else [])\<rparr>)))))"

fun api_sightings :: "pylib \<Rightarrow> pylang \<Rightarrow> observation list \<Rightarrow> py_error + sighting list" where
  "api_sightings lib lang [] = Inr []"
| "api_sightings lib lang (obs # data) =
     (case api_sighting lib lang obs of
        Inl e \<Rightarrow> Inl e
      | Inr r \<Rightarrow>
          (case api_sightings lib lang data of
             Inl e \<Rightarrow> Inl e
           | Inr rs \<Rightarrow> Inr (case r of None \<Rightarrow> rs | Some s \<Rightarrow> s # rs)))"

section \<open>The date span of generate_map (lines 229-236 and 247-266)\<close>

text \<open>
  \<open>parse_reported_date\<close>: the first format that parses wins; a ValueError moves on to
  the next format, and \<^verbatim>\<open>None\<close> is returned when both fail.
\<close>

fun try_formats :: "pylib \<Rightarrow> string \<Rightarrow> string list \<Rightarrow> py_error + pydate option" where
  "try_formats lib s [] = Inr None"
| "try_formats lib s (fmt # fmts) =
     (case strptime lib s fmt of
        Inr dt \<Rightarrow> Inr (Some (dt_date dt))
      | Inl ValueError \<Rightarrow> try_formats lib s fmts
      | Inl e \<Rightarrow> Inl e)"

definition parse_reported_date :: "pylib \<Rightarrow> string \<Rightarrow> py_error + pydate option" where
  "parse_reported_date lib date_str =
     try_formats lib (strip date_str) [''%b %d, %Y %H:%M'', ''%b %d, %Y'']"

text \<open>
  Lines 248-249 and 263-264: the dates of a list of records that parse; a date object is
  always true, so the filter removes exactly the \<^verbatim>\<open>None\<close>s.
\<close>

fun parsed_dates :: "pylib \<Rightarrow> sighting list \<Rightarrow> py_error + pydate list" where
  "parsed_dates lib [] = Inr []"
| "parsed_dates lib (s # ss) =
     (case parse_reported_date lib (date s) of
        Inl e \<Rightarrow> Inl e
      | Inr d \<Rightarrow>
          (case parsed_dates lib ss of
             Inl e \<Rightarrow> Inl e
           | Inr ds \<Rightarrow> Inr (case d of None \<Rightarrow> ds | Some x \<Rightarrow> x # ds)))"

text \<open>Lines 250-251: \<^verbatim>\<open>max(ds) if ds else None\<close>, and the same with \<^verbatim>\<open>min\<close>.\<close>

definition newest_of :: "pydate list \<Rightarrow> pydate option" where
  "newest_of ds = (case py_max ds of Inl e \<Rightarrow> None | Inr d \<Rightarrow> Some d)"

definition oldest_of :: "pydate list \<Rightarrow> pydate option" where
  "oldest_of ds = (case py_min ds of Inl e \<Rightarrow> None | Inr d \<Rightarrow> Some d)"

text \<open>Lines 252-255, from the parsed dates; \<open>days\<close> is \<^verbatim>\<open>None\<close> or an int.\<close>

definition actual_span :: "pydate list \<Rightarrow> int" where
  "actual_span ds =
     (case (newest_of ds, oldest_of ds) of
        (Some newest, Some oldest) \<Rightarrow> if newest \<noteq> oldest then newest - oldest else 1
      | other \<Rightarrow> 1)"

definition span_of :: "int option \<Rightarrow> pydate list \<Rightarrow> int" where
  "span_of days ds =
     (case days of
        None \<Rightarrow> actual_span ds
      | Some n \<Rightarrow> if n \<noteq> 0 \<and> 1 < n then n else actual_span ds)"

definition date_span :: "pylib \<Rightarrow> int option \<Rightarrow> sighting list \<Rightarrow> py_error + int" where
  "date_span lib days sightings =
     (case parsed_dates lib sightings of
        Inl e \<Rightarrow> Inl e
      | Inr ds \<Rightarrow> Inr (span_of days ds))"

text \<open>
  \<^verbatim>\<open>a / b\<close> on ints: the quotient rounded to a float; ZeroDivisionError for \<open>b = 0\<close>,
  OverflowError when the quotient is too large for a float.
\<close>

definition py_truediv :: "int \<Rightarrow> int \<Rightarrow> py_error + pyfloat" where
  "py_truediv a b =
     (if b = 0 then Inl ZeroDivisionError
      else (case float_of_rat (of_int a / of_int b) of
              Fin q \<Rightarrow> Inr (Fin q)
            | x \<Rightarrow> Inl OverflowError))"

text \<open>
  Lines 263-266: the age fraction of a group, and line 283: the age fraction of a legend
  entry (reached only when there are dates, so \<^verbatim>\<open>newest\<close> is a date there).
\<close>

definition group_age_frac ::
  "pylib \<Rightarrow> int option \<Rightarrow> sighting list \<Rightarrow> sighting list \<Rightarrow> py_error + pynum"
where
  "group_age_frac lib days sightings grp =
     (case parsed_dates lib sightings of
        Inl e \<Rightarrow> Inl e
      | Inr ds \<Rightarrow>
          (case parsed_dates lib grp of
             Inl e \<Rightarrow> Inl e
           | Inr gds \<Rightarrow>
               (case newest_of ds of
                  None \<Rightarrow> Inr (PyInt 0)
                | Some newest \<Rightarrow>
                    (case (case newest_of gds of None \<Rightarrow> newest_of ds | Some g \<Rightarrow> Some g) of
                       None \<Rightarrow> Inl TypeError
                     | Some group_newest \<Rightarrow>
                         (case py_truediv (newest - group_newest) (span_of days ds) of
                            Inl e \<Rightarrow> Inl e
                          | Inr x \<Rightarrow> Inr (PyFloat x))))))"

definition legend_age_frac ::
  "pylib \<Rightarrow> int option \<Rightarrow> sighting list \<Rightarrow> pydate \<Rightarrow> py_error + pynum"
where
  "legend_age_frac lib days sightings d =
     (case parsed_dates lib sightings of
        Inl e \<Rightarrow> Inl e
      | Inr ds \<Rightarrow>
          (case newest_of ds of
             None \<Rightarrow> Inl TypeError
           | Some newest \<Rightarrow>
               (case py_truediv (newest - d) (span_of days ds) of
                  Inl e \<Rightarrow> Inl e
                | Inr x \<Rightarrow> Inr (PyFloat x))))"

section \<open>The day-count filter of main (lines 433-438 and 450-456)\<close>

text \<open>
  An entry of \<^verbatim>\<open>parsed_emls\<close>: the path, the subject (\<^verbatim>\<open>None\<close> without a Subject header),
  the sightings of the email and its send date (\<^verbatim>\<open>None\<close> without a Date header).
\<close>

record eml =
  eml_path :: string
  eml_subject :: "string option"
  eml_sightings :: "sighting list"
  send_date :: "pydate option"

text \<open>Line 434: \<^verbatim>\<open>max(e[3] for e in parsed_emls if e[3])\<close>; a date is always true.\<close>

definition send_dates :: "eml list \<Rightarrow> pydate list" where
  "send_dates parsed_emls =
     concat (map (\<lambda>e. case send_date e of None \<Rightarrow> [] | Some d \<Rightarrow> [d]) parsed_emls)"

definition newest_date :: "eml list \<Rightarrow> py_error + pydate" where
  "newest_date parsed_emls = py_max (send_dates parsed_emls)"

text \<open>Lines 434-437; \<open>days\<close> is \<^verbatim>\<open>args.days\<close>. Without a day count the list is kept.\<close>

definition filter_by_days :: "int option \<Rightarrow> eml list \<Rightarrow> py_error + eml list" where
  "filter_by_days days parsed_emls =
     (case newest_date parsed_emls of
        Inl e \<Rightarrow> Inl e
      | Inr newest \<Rightarrow>
          (case days of
             None \<Rightarrow> Inr parsed_emls
           | Some n \<Rightarrow>
               (case date_minus_days newest (n - 1) of
                  Inl e \<Rightarrow> Inl e
                | Inr cutoff \<Rightarrow>
                    Inr (filter (\<lambda>e. case send_date e of None \<Rightarrow> False | Some d \<Rightarrow> cutoff \<le> d)
                           parsed_emls))))"

text \<open>
  Lines 450-456: the records that reach the map are those of the emails kept, in order
  (each tagged with its email's send date, which nothing reads afterwards).
\<close>

definition all_sightings :: "eml list \<Rightarrow> sighting list" where
  "all_sightings parsed_emls = concat (map eml_sightings parsed_emls)"

text \<open>
  The claim about the day-count filter speaks of the records' report dates. This is
  the filter it describes, written from the spec's words: a record survives when its
  report date lies within the \<open>n\<close> days that end at the newest report date.
\<close>

definition spec_day_filter ::
  "(sighting \<Rightarrow> pydate option) \<Rightarrow> int \<Rightarrow> sighting list \<Rightarrow> sighting list"
where
  "spec_day_filter report_day n records =
     (let days = concat (map (\<lambda>r. case report_day r of None \<Rightarrow> [] | Some d \<Rightarrow> [d]) records)
      in filter (\<lambda>r. case report_day r of
                        None \<Rightarrow> False
                      | Some d \<Rightarrow> fold max days d - (n - 1) \<le> d) records)"

text \<open>The report date of a record, as the script reads it (\<open>None\<close> when it does not parse).\<close>

definition report_day :: "pylib \<Rightarrow> sighting \<Rightarrow> pydate option" where
  "report_day lib r = (case parse_reported_date lib (date r) of Inl e \<Rightarrow> None | Inr d \<Rightarrow> d)"

section \<open>The library on the strings of the examples\<close>

text \<open>
  What \<^verbatim>\<open>strptime\<close> and \<^verbatim>\<open>strftime\<close> return for the date strings that the examples
  below use (2026-02-01, 2026-02-05 and 2026-02-10 have the ordinals 739648, 739652 and
  739657); the examples make no other call that succeeds. \<^verbatim>\<open>str\<close> of a string is the
  string, and the only strings the examples convert to floats are decimal numbers.
\<close>

definition example_lib :: pylib where
  "example_lib =
     \<lparr>strptime = (\<lambda>s fmt.
        if s = ''Feb 10, 2026 08:00'' \<and> fmt = ''%b %d, %Y %H:%M''
          then Inr \<lparr>dt_date = 739657, dt_hour = 8, dt_minute = 0\<rparr>
        else if s = ''Feb 01, 2026 08:00'' \<and> fmt = ''%b %d, %Y %H:%M''
          then Inr \<lparr>dt_date = 739648, dt_hour = 8, dt_minute = 0\<rparr>
        else if s = ''2026-02-05 15:08'' \<and> fmt = ''%Y-%m-%d %H:%M''
          then Inr \<lparr>dt_date = 739652, dt_hour = 15, dt_minute = 8\<rparr>
        else if s = ''2026-02-05'' \<and> fmt = ''%Y-%m-%d''
          then Inr \<lparr>dt_date = 739652, dt_hour = 0, dt_minute = 0\<rparr>
        else Inl ValueError),
      strftime = (\<lambda>dt fmt.
        if fmt = ''%b %d, %Y %H:%M'' \<and> dt = \<lparr>dt_date = 739652, dt_hour = 15, dt_minute = 8\<rparr>
          then Inr ''Feb 05, 2026 15:08''
        else if fmt = ''%b %d, %Y %H:%M'' \<and> dt = \<lparr>dt_date = 739652, dt_hour = 0, dt_minute = 0\<rparr>
          then Inr ''Feb 05, 2026 00:00''
        else Inl ValueError)\<rparr>"

definition example_lang :: pylang where
  "example_lang =
     \<lparr>str_of = (\<lambda>v. case v of PStr s \<Rightarrow> s | other \<Rightarrow> []),
      float_of_str = py_float\<rparr>"

text \<open>A record of the extractor with the coordinates filled in, for the examples.\<close>

definition sighting_at :: "rat \<Rightarrow> rat \<Rightarrow> sighting" where
  "sighting_at la lo =
     (new_sighting ''Snowy Owl'' ''Bubo scandiacus'' ''1'' False)
       \<lparr>lat := Some (Fin la), lon := Some (Fin lo)\<rparr>"

section \<open>Evaluating float operations on numerals\<close>

lemma floor_rat_numeral_div [simp]:
  "\<lfloor>numeral a / numeral b :: rat\<rfloor> = numeral a div numeral b"
  by (metis floor_divide_of_int_eq of_int_numeral)

lemma floor_rat_neg_numeral_div [simp]:
  "\<lfloor>- (numeral a / numeral b) :: rat\<rfloor> = - numeral a div numeral b"
  by (metis divide_minus_left floor_divide_of_int_eq of_int_neg_numeral of_int_numeral)

lemma ceiling_rat_numeral_div [simp]:
  "\<lceil>numeral a / numeral b :: rat\<rceil> = - (- numeral a div numeral b)"
  by (metis ceiling_divide_eq_div of_int_numeral)

lemmas float_eval = float_of_rat_def ilog2_def round_half_even_def Let_def log2_floor.simps

lemmas string_eval = strip_def is_space_def is_digit_def is_linebreak_def ord_def

lemmas regex_eval = re_match_def re_search_def header_re_def reported_re_def coords_re_def
  number_re_def lit_def group_def startswith_def

section \<open>Grouping: the groups partition the input\<close>

lemma append_to_group_mset:
  "mset (concat (map snd (append_to_group k s gs))) = mset (concat (map snd gs)) + {#s#}"
  by (induction gs) auto

lemma append_to_group_sizes:
  "(\<Sum>g\<leftarrow>append_to_group k s gs. length (snd g)) = Suc (\<Sum>g\<leftarrow>gs. length (snd g))"
  by (induction gs) auto

lemma append_to_group_nonempty:
  "list_all (\<lambda>g. snd g \<noteq> []) gs \<Longrightarrow>
     list_all (\<lambda>g. snd g \<noteq> []) (append_to_group k s gs)"
  by (induction gs) auto

lemma group_loop_partition:
  "group_loop xs acc = Inr gs \<Longrightarrow>
     mset (concat (map snd gs)) = mset (concat (map snd acc)) + mset xs \<and>
     (\<Sum>g\<leftarrow>gs. length (snd g)) = (\<Sum>g\<leftarrow>acc. length (snd g)) + length xs \<and>
     (list_all (\<lambda>g. snd g \<noteq> []) acc \<longrightarrow> list_all (\<lambda>g. snd g \<noteq> []) gs)"
proof (induction xs arbitrary: acc)
  case Nil
  then show ?case by simp
next
  case (Cons x xs)
  from Cons.prems obtain k where k: "group_key x = Inr k"
    and rest: "group_loop xs (append_to_group k x acc) = Inr gs"
    by (auto split: sum.splits)
  from Cons.IH [OF rest] show ?case
    by (simp add: append_to_group_mset append_to_group_sizes append_to_group_nonempty)
qed

lemma group_loop_total:
  "\<forall>s\<in>set xs. lat s \<noteq> None \<and> lon s \<noteq> None \<Longrightarrow> \<exists>gs. group_loop xs acc = Inr gs"
proof (induction xs arbitrary: acc)
  case Nil
  then show ?case by simp
next
  case (Cons x xs)
  then obtain la lo where "lat x = Some la" "lon x = Some lo" by auto
  then have "group_key x = Inr (py_round5 la, py_round5 lo)"
    by (simp add: group_key_def)
  with Cons show ?case by simp
qed

text \<open>
  C10. Whenever the grouper returns, the group lists together hold exactly the input
  records, each as often as the input does (so none is dropped or duplicated and each
  occurrence lies in one group), the group sizes add up to the input length, and no
  group is empty. It returns whenever every record has both coordinates.
\<close>

theorem group_sightings_partition:
  "(group_sightings xs = Inr gs \<longrightarrow>
      mset (concat (map snd gs)) = mset xs \<and>
      (\<Sum>g\<leftarrow>gs. length (snd g)) = length xs \<and>
      list_all (\<lambda>g. snd g \<noteq> []) gs) \<and>
   ((\<forall>s\<in>set xs. lat s \<noteq> None \<and> lon s \<noteq> None) \<longrightarrow> (\<exists>gs'. group_sightings xs = Inr gs'))"
proof (intro conjI impI)
  assume r: "group_sightings xs = Inr gs"
  then have "group_loop xs [] = Inr gs" by (simp add: group_sightings_def)
  from group_loop_partition [OF this]
  show "mset (concat (map snd gs)) = mset xs"
    and "(\<Sum>g\<leftarrow>gs. length (snd g)) = length xs"
    and "list_all (\<lambda>g. snd g \<noteq> []) gs"
    by simp_all
next
  assume "\<forall>s\<in>set xs. lat s \<noteq> None \<and> lon s \<noteq> None"
  then show "\<exists>gs'. group_sightings xs = Inr gs'"
    unfolding group_sightings_def by (rule group_loop_total)
qed


theorem group_sightings_partition_witness:
  "group_sightings
     [sighting_at 1 2, sighting_at 3 2, sighting_at 1 2]
   = Inr [((Fin 1, Fin 2), [sighting_at 1 2, sighting_at 1 2]),
          ((Fin 3, Fin 2), [sighting_at 3 2])] \<and>
   mset (concat (map snd
          [((Fin 1, Fin 2), [sighting_at 1 2, sighting_at 1 2]),
           ((Fin 3, Fin 2), [sighting_at 3 2])]))
   = mset [sighting_at 1 2, sighting_at 3 2, sighting_at 1 2]"
proof -
  let ?a = "sighting_at 1 2"
  let ?b = "sighting_at 3 2"
  let ?gs = "[((Fin 1, Fin 2), [?a, ?a]), ((Fin 3, Fin 2), [?b])]"
  have r: "group_sightings [?a, ?b, ?a] = Inr ?gs"
    by (simp add: sighting_at_def group_sightings_def group_key_def key_eq_def float_eval)
  with group_sightings_partition [of "[?a, ?b, ?a]" ?gs]
  have "mset (concat (map snd ?gs)) = mset [?a, ?b, ?a]" by blast
  with r show ?thesis by blast
qed

section \<open>Grouping: one group per rounded coordinate pair\<close>

lemma first_seen_snoc:
  "first_seen (ks @ [k]) = (if k \<in> set ks then first_seen ks else first_seen ks @ [k])"
  by (simp add: first_seen_def)

lemma set_first_seen [simp]: "set (first_seen ks) = set ks"
  by (simp add: first_seen_def)

lemma distinct_first_seen [simp]: "distinct (first_seen ks)"
  by (simp add: first_seen_def)

lemma float_eq_iff: "x \<noteq> NaN \<Longrightarrow> y \<noteq> NaN \<Longrightarrow> float_eq x y = (x = y)"
  by (cases x; cases y) simp_all

lemma key_eq_iff:
  "fst k \<noteq> NaN \<and> snd k \<noteq> NaN \<Longrightarrow> fst k' \<noteq> NaN \<and> snd k' \<noteq> NaN \<Longrightarrow> key_eq k k' = (k = k')"
  by (cases k; cases k') (auto simp: key_eq_def float_eq_iff)

lemma append_to_group_map:
  assumes "distinct L" and "\<forall>k'\<in>set L. fst k' \<noteq> NaN \<and> snd k' \<noteq> NaN"
    and "fst k \<noteq> NaN \<and> snd k \<noteq> NaN"
  shows "append_to_group k x (map (\<lambda>k'. (k', f k')) L) =
           (if k \<in> set L then map (\<lambda>k'. (k', if k' = k then f k' @ [x] else f k')) L
            else map (\<lambda>k'. (k', f k')) L @ [(k, [x])])"
  using assms
proof (induction L)
  case Nil
  then show ?case by simp
next
  case (Cons a L)
  then have eq: "key_eq a k = (a = k)" by (simp add: key_eq_iff)
  from Cons show ?case
    by (auto simp: eq)
qed


lemma keys_set:
  assumes "map group_key ys = map Inr kys"
  shows "k \<in> set kys \<longleftrightarrow> (\<exists>s\<in>set ys. group_key s = Inr k)"
proof -
  have "group_key ` set ys = Inr ` set kys"
    using assms by (metis set_map)
  then show ?thesis by (auto simp: image_iff set_eq_iff) (metis sum.inject(2))+
qed

lemma append_to_group_grouped:
  assumes "map group_key ys = map Inr kys" and "group_key x = Inr k"
    and "\<forall>k'\<in>set kys. fst k' \<noteq> NaN \<and> snd k' \<noteq> NaN" and "fst k \<noteq> NaN \<and> snd k \<noteq> NaN"
  shows "append_to_group k x (grouped ys kys) = grouped (ys @ [x]) (kys @ [k])"
proof (cases "k \<in> set kys")
  case True
  have "append_to_group k x (grouped ys kys) =
          map (\<lambda>k'. (k', if k' = k then filter (\<lambda>s. group_key s = Inr k') ys @ [x]
                           else filter (\<lambda>s. group_key s = Inr k') ys)) (first_seen kys)"
    unfolding grouped_def using assms(3,4) True
    by (subst append_to_group_map) auto
  also have "\<dots> = grouped (ys @ [x]) (kys @ [k])"
    using True assms(2) by (auto simp: grouped_def first_seen_snoc)
  finally show ?thesis .
next
  case False
  then have none: "filter (\<lambda>s. group_key s = Inr k) ys = []"
    using keys_set [OF assms(1), of k] by (auto simp: filter_empty_conv)
  have "append_to_group k x (grouped ys kys) =
          map (\<lambda>k'. (k', filter (\<lambda>s. group_key s = Inr k') ys)) (first_seen kys) @ [(k, [x])]"
    unfolding grouped_def using assms(3,4) False
    by (subst append_to_group_map) auto
  also have "\<dots> = grouped (ys @ [x]) (kys @ [k])"
    using False assms(2) none by (auto simp: grouped_def first_seen_snoc)
  finally show ?thesis .
qed

lemma group_loop_grouped:
  assumes "map group_key ys = map Inr kys" and "map group_key xs = map Inr kxs"
    and "\<forall>k\<in>set (kys @ kxs). fst k \<noteq> NaN \<and> snd k \<noteq> NaN"
  shows "group_loop xs (grouped ys kys) = Inr (grouped (ys @ xs) (kys @ kxs))"
  using assms
proof (induction xs arbitrary: ys kys kxs)
  case Nil
  then show ?case by simp
next
  case (Cons x xs)
  from Cons.prems(2) obtain k kxs' where kxs: "kxs = k # kxs'" and k: "group_key x = Inr k"
    and rest: "map group_key xs = map Inr kxs'"
    by (cases kxs) auto
  have step: "append_to_group k x (grouped ys kys) = grouped (ys @ [x]) (kys @ [k])"
    using Cons.prems(1,3) k kxs by (intro append_to_group_grouped) auto
  have "group_loop xs (grouped (ys @ [x]) (kys @ [k])) = Inr (grouped ((ys @ [x]) @ xs) ((kys @ [k]) @ kxs'))"
    using Cons.prems(1,3) k rest kxs by (intro Cons.IH) auto
  then show ?case by (simp add: k step kxs)
qed


lemma keys_exist:
  assumes "map group_key xs = map Inr ks" and "s \<in> set xs"
  shows "\<exists>k\<in>set ks. group_key s = Inr k"
proof -
  have "group_key ` set xs = Inr ` set ks"
    using assms(1) by (metis set_map)
  with assms(2) show ?thesis by auto
qed

text \<open>
  C4. The key of a record is \<open>(round(lat, 5), round(lon, 5))\<close> (\<open>group_key\<close>). For records
  with coordinates that are not NaN, where \<open>ks\<close> lists their keys in input order: the
  grouper returns one entry per distinct key, the keys in the order they are first seen,
  and the entry of a key holds exactly the records with that key, in input order. So two
  records lie in one group exactly when their rounded coordinates are equal.
\<close>

theorem group_sightings_by_rounded_coordinates:
  assumes "map group_key xs = map Inr ks"
    and "\<forall>k\<in>set ks. fst k \<noteq> NaN \<and> snd k \<noteq> NaN"
  shows "group_sightings xs =
           Inr (map (\<lambda>k. (k, filter (\<lambda>s. group_key s = Inr k) xs)) (first_seen ks)) \<and>
         distinct (first_seen ks) \<and> set (first_seen ks) = set ks \<and>
         (\<forall>s\<in>set xs. \<forall>s'\<in>set xs.
            (\<exists>k\<in>set ks. s \<in> set (filter (\<lambda>s. group_key s = Inr k) xs) \<and>
                         s' \<in> set (filter (\<lambda>s. group_key s = Inr k) xs))
            \<longleftrightarrow> group_key s = group_key s')"
proof (intro conjI ballI)
  have "group_loop xs (grouped [] []) = Inr (grouped ([] @ xs) ([] @ ks))"
    using assms by (intro group_loop_grouped) auto
  then show "group_sightings xs =
           Inr (map (\<lambda>k. (k, filter (\<lambda>s. group_key s = Inr k) xs)) (first_seen ks))"
    by (simp add: group_sightings_def grouped_def first_seen_def)
next
  fix s s' assume "s \<in> set xs" "s' \<in> set xs"
  then show "(\<exists>k\<in>set ks. s \<in> set (filter (\<lambda>s. group_key s = Inr k) xs) \<and>
                         s' \<in> set (filter (\<lambda>s. group_key s = Inr k) xs))
            \<longleftrightarrow> group_key s = group_key s'"
    using keys_exist [OF assms(1), of s] by auto
qed simp_all

theorem group_sightings_by_rounded_coordinates_witness:
  "group_sightings
     [sighting_at (5928348553861241 / 140737488355328) (- (5034405842138893 / 70368744177664)),
      sighting_at (2964174347299365 / 70368744177664) (- (5034405912507637 / 70368744177664)),
      sighting_at (5928341516986823 / 140737488355328) (- (5034405138451451 / 70368744177664))]
   = Inr
     [((Fin (5928348553861241 / 140737488355328), Fin (- (5034405842138893 / 70368744177664))),
       [sighting_at (5928348553861241 / 140737488355328) (- (5034405842138893 / 70368744177664)),
        sighting_at (2964174347299365 / 70368744177664) (- (5034405912507637 / 70368744177664))]),
      ((Fin (5928341516986823 / 140737488355328), Fin (- (5034405138451451 / 70368744177664))),
       [sighting_at (5928341516986823 / 140737488355328) (- (5034405138451451 / 70368744177664))])]"
proof -
  let ?r1 = "sighting_at (5928348553861241 / 140737488355328) (- (5034405842138893 / 70368744177664))"
  let ?r2 = "sighting_at (2964174347299365 / 70368744177664) (- (5034405912507637 / 70368744177664))"
  let ?r3 = "sighting_at (5928341516986823 / 140737488355328) (- (5034405138451451 / 70368744177664))"
  let ?k1 = "(Fin (5928348553861241 / 140737488355328), Fin (- (5034405842138893 / 70368744177664)))"
  let ?k3 = "(Fin (5928341516986823 / 140737488355328), Fin (- (5034405138451451 / 70368744177664)))"
  have k1: "group_key ?r1 = Inr ?k1" by (simp add: sighting_at_def group_key_def float_eval)
  have k2: "group_key ?r2 = Inr ?k1" by (simp add: sighting_at_def group_key_def float_eval)
  have k3: "group_key ?r3 = Inr ?k3" by (simp add: sighting_at_def group_key_def float_eval)
  have keys: "map group_key [?r1, ?r2, ?r3] = map Inr [?k1, ?k1, ?k3]"
    by (simp only: list.map k1 k2 k3)
  have nonan: "\<forall>k\<in>set [?k1, ?k1, ?k3]. fst k \<noteq> NaN \<and> snd k \<noteq> NaN"
    by simp
  have fs: "first_seen [?k1, ?k1, ?k3] = [?k1, ?k3]"
    by (simp add: first_seen_def)
  from group_sightings_by_rounded_coordinates [OF keys nonan]
  have "group_sightings [?r1, ?r2, ?r3] =
      Inr (map (\<lambda>k. (k, filter (\<lambda>s. group_key s = Inr k) [?r1, ?r2, ?r3])) (first_seen [?k1, ?k1, ?k3]))"
    by (rule conjunct1)
  also have "\<dots> = Inr [(?k1, [?r1, ?r2]), (?k3, [?r3])]"
    unfolding fs by (simp add: k1 k2 k3)
  finally show ?thesis .
qed


section \<open>The date span is at least one day\<close>

lemma py_max_eq: "ds \<noteq> [] \<Longrightarrow> py_max ds = Inr (Max (set ds))"
proof (cases ds)
  case (Cons a list)
  then show ?thesis using Max.set_eq_fold [of a list] by simp
qed simp

lemma py_min_eq: "ds \<noteq> [] \<Longrightarrow> py_min ds = Inr (Min (set ds))"
proof (cases ds)
  case (Cons a list)
  then show ?thesis using Min.set_eq_fold [of a list] by simp
qed simp

lemma newest_of_eq: "newest_of ds = (if ds = [] then None else Some (Max (set ds)))"
  by (simp add: newest_of_def py_max_eq)

lemma oldest_of_eq: "oldest_of ds = (if ds = [] then None else Some (Min (set ds)))"
  by (simp add: oldest_of_def py_min_eq)

lemma actual_span_eq:
  "actual_span ds = (if ds = [] then 1 else max 1 (Max (set ds) - Min (set ds)))"
proof (cases "ds = []")
  case True
  then show ?thesis by (simp add: actual_span_def newest_of_eq oldest_of_eq)
next
  case False
  then have "Min (set ds) \<le> Max (set ds)"
    by (simp add: Min_le_iff)
  then have "Max (set ds) \<noteq> Min (set ds) \<Longrightarrow> 1 \<le> Max (set ds) - Min (set ds)"
    by linarith
  with False show ?thesis
    by (simp add: actual_span_def newest_of_eq oldest_of_eq max_def)
qed

lemma span_of_ge1: "1 \<le> span_of days ds"
  by (auto simp: span_of_def actual_span_eq split: option.splits)

lemma try_formats_error:
  "try_formats lib s fmts = Inl e \<Longrightarrow> e \<noteq> ValueError \<and> (\<exists>fmt. strptime lib s fmt = Inl e)"
  by (induction fmts) (auto split: sum.splits py_error.splits)

lemma parsed_dates_error:
  "parsed_dates lib ss = Inl e \<Longrightarrow> e \<noteq> ValueError \<and> (\<exists>s fmt. strptime lib s fmt = Inl e)"
proof (induction ss)
  case Nil
  then show ?case by simp
next
  case (Cons s ss)
  show ?case
  proof (cases "parse_reported_date lib (date s)")
    case (Inl e')
    with Cons.prems have "e' = e" by simp
    with Inl have "try_formats lib (strip (date s)) [''%b %d, %Y %H:%M'', ''%b %d, %Y''] = Inl e"
      by (simp only: parse_reported_date_def)
    from try_formats_error [OF this] show ?thesis by blast
  next
    case (Inr d)
    with Cons.prems have "parsed_dates lib ss = Inl e"
      by (simp split: sum.splits)
    then show ?thesis by (rule Cons.IH)
  qed
qed

lemma span_of_eq:
  "span_of days ds =
     (let actual = (if ds = [] then 1 else max 1 (Max (set ds) - Min (set ds)))
      in case days of None \<Rightarrow> actual | Some d \<Rightarrow> if 1 < d then d else actual)"
  by (auto simp: span_of_def actual_span_eq Let_def split: option.splits)

lemma py_truediv_nonzero: "b \<noteq> 0 \<Longrightarrow> py_truediv a b \<noteq> Inl ZeroDivisionError"
  by (auto simp: py_truediv_def split: pyfloat.splits)

text \<open>
  C9. The date span, the denominator of every age fraction, is at least 1: it is the
  day count when one greater than 1 is given, and otherwise the difference between the
  newest and the oldest parsed date, or 1 when they are equal or there is none. So the
  divisions of lines 266 and 283 never divide by zero: a ZeroDivisionError could only
  come out of the library's date parser.
\<close>

theorem date_span_at_least_one:
  "1 \<le> span_of days ds \<and>
   span_of days ds =
     (let actual = (if ds = [] then 1 else max 1 (Max (set ds) - Min (set ds)))
      in case days of None \<Rightarrow> actual | Some d \<Rightarrow> if 1 < d then d else actual) \<and>
   py_truediv a (span_of days ds) \<noteq> Inl ZeroDivisionError \<and>
   (date_span lib days records = Inr n \<longrightarrow> 1 \<le> n) \<and>
   ((\<forall>s fmt. strptime lib s fmt \<noteq> Inl ZeroDivisionError) \<longrightarrow>
      group_age_frac lib days records grp \<noteq> Inl ZeroDivisionError \<and>
      legend_age_frac lib days records d' \<noteq> Inl ZeroDivisionError)"
proof -
  have ge: "1 \<le> span_of days ds" for ds by (rule span_of_ge1)
  have nz: "py_truediv a (span_of days ds) \<noteq> Inl ZeroDivisionError" for a ds
    using ge [of ds] by (intro py_truediv_nonzero) linarith
  have c3: "date_span lib days records = Inr n \<longrightarrow> 1 \<le> n"
    using ge by (auto simp: date_span_def split: sum.splits)
  have c6: "group_age_frac lib days records grp \<noteq> Inl ZeroDivisionError"
    if "\<forall>s fmt. strptime lib s fmt \<noteq> Inl ZeroDivisionError"
    using nz parsed_dates_error [of lib _ ZeroDivisionError] that
    by (auto simp: group_age_frac_def split: sum.splits option.splits)
  have c7: "legend_age_frac lib days records d' \<noteq> Inl ZeroDivisionError"
    if "\<forall>s fmt. strptime lib s fmt \<noteq> Inl ZeroDivisionError"
    using nz parsed_dates_error [of lib _ ZeroDivisionError] that
    by (auto simp: legend_age_frac_def split: sum.splits option.splits)
  from ge nz c3 c6 c7 span_of_eq [of days ds] show ?thesis by blast
qed

theorem date_span_at_least_one_witness:
  "date_span example_lib None
     [(new_sighting ''Snowy Owl'' ''Bubo scandiacus'' ''1'' False)\<lparr>date := ''Feb 10, 2026 08:00''\<rparr>,
      (new_sighting ''Snowy Owl'' ''Bubo scandiacus'' ''1'' False)\<lparr>date := ''Feb 01, 2026 08:00''\<rparr>]
     = Inr 9 \<and>
   (1::int) \<le> 9 \<and>
   (\<forall>s fmt. strptime example_lib s fmt \<noteq> Inl ZeroDivisionError) \<and>
   group_age_frac example_lib None
     [(new_sighting ''Snowy Owl'' ''Bubo scandiacus'' ''1'' False)\<lparr>date := ''Feb 10, 2026 08:00''\<rparr>,
      (new_sighting ''Snowy Owl'' ''Bubo scandiacus'' ''1'' False)\<lparr>date := ''Feb 01, 2026 08:00''\<rparr>]
     [(new_sighting ''Snowy Owl'' ''Bubo scandiacus'' ''1'' False)\<lparr>date := ''Feb 01, 2026 08:00''\<rparr>]
     \<noteq> Inl ZeroDivisionError"
proof -
  let ?a = "(new_sighting ''Snowy Owl'' ''Bubo scandiacus'' ''1'' False)\<lparr>date := ''Feb 10, 2026 08:00''\<rparr>"
  let ?b = "(new_sighting ''Snowy Owl'' ''Bubo scandiacus'' ''1'' False)\<lparr>date := ''Feb 01, 2026 08:00''\<rparr>"
  have span: "date_span example_lib None [?a, ?b] = Inr 9"
    by (simp add: date_span_def parse_reported_date_def example_lib_def string_eval
        span_of_def actual_span_def newest_of_def oldest_of_def)
  have lib: "\<forall>s fmt. strptime example_lib s fmt \<noteq> Inl ZeroDivisionError"
    by (simp add: example_lib_def)
  from date_span_at_least_one [of None "[]" 0 example_lib "[?a, ?b]" 9 "[?b]" 0] span lib
  show ?thesis by blast
qed


section \<open>The day-count filter\<close>

lemma send_dates_mem: "d \<in> set (send_dates emls) \<longleftrightarrow> (\<exists>e\<in>set emls. send_date e = Some d)"
  by (induction emls) (auto simp: send_dates_def split: option.splits)

text \<open>
  C5 (as amended). Under a day count \<open>n\<close> the filter works on emails, by their send
  dates: when it returns, it has kept exactly the emails whose send date lies within
  the \<open>n\<close> days that end at the newest send date, both ends included, in their order;
  an email without a send date is dropped, and the records that go on are all the
  records of the emails kept, whatever their report dates. It returns when some email
  has a send date and the cutoff is a date.
\<close>

theorem day_filter_by_send_date:
  "(filter_by_days (Some n) emls = Inr kept \<longrightarrow>
      send_dates emls \<noteq> [] \<and>
      kept = filter (\<lambda>e. case send_date e of
                            None \<Rightarrow> False
                          | Some d \<Rightarrow> Max (set (send_dates emls)) - (n - 1) \<le> d \<and>
                                       d \<le> Max (set (send_dates emls))) emls \<and>
      all_sightings kept = concat (map eml_sightings kept)) \<and>
   (send_dates emls \<noteq> [] \<and> \<bar>n - 1\<bar> \<le> 999999999 \<and>
    1 \<le> Max (set (send_dates emls)) - (n - 1) \<and>
    Max (set (send_dates emls)) - (n - 1) \<le> 3652059 \<longrightarrow>
      (\<exists>kept'. filter_by_days (Some n) emls = Inr kept'))"
proof (intro conjI impI)
  assume r: "filter_by_days (Some n) emls = Inr kept"
  then show ne: "send_dates emls \<noteq> []"
    by (auto simp: filter_by_days_def newest_date_def split: sum.splits)
  then have newest: "newest_date emls = Inr (Max (set (send_dates emls)))"
    by (simp add: newest_date_def py_max_eq)
  have le: "d \<le> Max (set (send_dates emls))" if "e \<in> set emls" "send_date e = Some d" for e d
    using that send_dates_mem [of d emls] by (intro Max_ge) auto
  from r newest have "kept = filter (\<lambda>e. case send_date e of None \<Rightarrow> False
                          | Some d \<Rightarrow> Max (set (send_dates emls)) - (n - 1) \<le> d) emls"
    by (auto simp: filter_by_days_def date_minus_days_def split: sum.splits if_splits)
  also have "\<dots> = filter (\<lambda>e. case send_date e of
                            None \<Rightarrow> False
                          | Some d \<Rightarrow> Max (set (send_dates emls)) - (n - 1) \<le> d \<and>
                                       d \<le> Max (set (send_dates emls))) emls"
    using le by (intro filter_cong) (auto split: option.splits)
  finally show "kept = filter (\<lambda>e. case send_date e of
                            None \<Rightarrow> False
                          | Some d \<Rightarrow> Max (set (send_dates emls)) - (n - 1) \<le> d \<and>
                                       d \<le> Max (set (send_dates emls))) emls" .
  show "all_sightings kept = concat (map eml_sightings kept)"
    by (simp add: all_sightings_def)
next
  assume "send_dates emls \<noteq> [] \<and> \<bar>n - 1\<bar> \<le> 999999999 \<and>
    1 \<le> Max (set (send_dates emls)) - (n - 1) \<and>
    Max (set (send_dates emls)) - (n - 1) \<le> 3652059"
  then have ne: "send_dates emls \<noteq> []" and n: "\<bar>n - 1\<bar> \<le> 999999999"
    and lo: "1 \<le> Max (set (send_dates emls)) - (n - 1)"
    and hi: "Max (set (send_dates emls)) - (n - 1) \<le> 3652059"
    by simp_all
  define m where "m = Max (set (send_dates emls))"
  have "newest_date emls = Inr m"
    using ne by (simp add: newest_date_def py_max_eq m_def)
  moreover have "date_minus_days m (n - 1) = Inr (m - (n - 1))"
    using n lo hi unfolding m_def [symmetric] date_minus_days_def by auto
  ultimately show "\<exists>kept'. filter_by_days (Some n) emls = Inr kept'"
    by (simp add: filter_by_days_def)
qed


theorem day_filter_by_send_date_witness:
  "filter_by_days (Some 3)
     [\<lparr>eml_path = ''new.eml'', eml_subject = Some ''eBird Alert'',
       eml_sightings = [(new_sighting ''Snowy Owl'' ''Bubo scandiacus'' ''1'' False)\<lparr>date := ''Feb 10, 2026 08:00''\<rparr>],
       send_date = Some 739657\<rparr>,
      \<lparr>eml_path = ''old.eml'', eml_subject = Some ''eBird Alert'',
       eml_sightings = [(new_sighting ''Snowy Owl'' ''Bubo scandiacus'' ''1'' False)\<lparr>date := ''Feb 01, 2026 08:00''\<rparr>],
       send_date = Some 739652\<rparr>]
   = Inr
     [\<lparr>eml_path = ''new.eml'', eml_subject = Some ''eBird Alert'',
       eml_sightings = [(new_sighting ''Snowy Owl'' ''Bubo scandiacus'' ''1'' False)\<lparr>date := ''Feb 10, 2026 08:00''\<rparr>],
       send_date = Some 739657\<rparr>] \<and>
   send_dates
     [\<lparr>eml_path = ''new.eml'', eml_subject = Some ''eBird Alert'',
       eml_sightings = [(new_sighting ''Snowy Owl'' ''Bubo scandiacus'' ''1'' False)\<lparr>date := ''Feb 10, 2026 08:00''\<rparr>],
       send_date = Some 739657\<rparr>,
      \<lparr>eml_path = ''old.eml'', eml_subject = Some ''eBird Alert'',
       eml_sightings = [(new_sighting ''Snowy Owl'' ''Bubo scandiacus'' ''1'' False)\<lparr>date := ''Feb 01, 2026 08:00''\<rparr>],
       send_date = Some 739652\<rparr>] \<noteq> []"
proof -
  let ?e1 = "\<lparr>eml_path = ''new.eml'', eml_subject = Some ''eBird Alert'',
       eml_sightings = [(new_sighting ''Snowy Owl'' ''Bubo scandiacus'' ''1'' False)\<lparr>date := ''Feb 10, 2026 08:00''\<rparr>],
       send_date = Some 739657\<rparr>"
  let ?e2 = "\<lparr>eml_path = ''old.eml'', eml_subject = Some ''eBird Alert'',
       eml_sightings = [(new_sighting ''Snowy Owl'' ''Bubo scandiacus'' ''1'' False)\<lparr>date := ''Feb 01, 2026 08:00''\<rparr>],
       send_date = Some 739652\<rparr>"
  have r: "filter_by_days (Some 3) [?e1, ?e2] = Inr [?e1]"
    by (simp add: filter_by_days_def newest_date_def send_dates_def date_minus_days_def)
  with day_filter_by_send_date [of 3 "[?e1, ?e2]" "[?e1]"] show ?thesis by blast
qed

text \<open>
  The claim as stated fails: one email sent on 2026-02-10 holds a record reported on
  2026-02-10 and one reported on 2026-02-01. With a day count of 3 the email is kept, so
  both records go on, while the records reported within the newest three days are the
  first one only.
\<close>

theorem day_filter_counterexample:
  "filter_by_days (Some 3)
     [\<lparr>eml_path = ''alert.eml'', eml_subject = Some ''eBird Alert'',
       eml_sightings =
         [(new_sighting ''Snowy Owl'' ''Bubo scandiacus'' ''1'' False)\<lparr>date := ''Feb 10, 2026 08:00''\<rparr>,
          (new_sighting ''Snowy Owl'' ''Bubo scandiacus'' ''1'' False)\<lparr>date := ''Feb 01, 2026 08:00''\<rparr>],
       send_date = Some 739657\<rparr>]
   = Inr
     [\<lparr>eml_path = ''alert.eml'', eml_subject = Some ''eBird Alert'',
       eml_sightings =
         [(new_sighting ''Snowy Owl'' ''Bubo scandiacus'' ''1'' False)\<lparr>date := ''Feb 10, 2026 08:00''\<rparr>,
          (new_sighting ''Snowy Owl'' ''Bubo scandiacus'' ''1'' False)\<lparr>date := ''Feb 01, 2026 08:00''\<rparr>],
       send_date = Some 739657\<rparr>] \<and>
   all_sightings
     [\<lparr>eml_path = ''alert.eml'', eml_subject = Some ''eBird Alert'',
       eml_sightings =
         [(new_sighting ''Snowy Owl'' ''Bubo scandiacus'' ''1'' False)\<lparr>date := ''Feb 10, 2026 08:00''\<rparr>,
          (new_sighting ''Snowy Owl'' ''Bubo scandiacus'' ''1'' False)\<lparr>date := ''Feb 01, 2026 08:00''\<rparr>],
       send_date = Some 739657\<rparr>]
   = [(new_sighting ''Snowy Owl'' ''Bubo scandiacus'' ''1'' False)\<lparr>date := ''Feb 10, 2026 08:00''\<rparr>,
      (new_sighting ''Snowy Owl'' ''Bubo scandiacus'' ''1'' False)\<lparr>date := ''Feb 01, 2026 08:00''\<rparr>] \<and>
   spec_day_filter (report_day example_lib) 3
     [(new_sighting ''Snowy Owl'' ''Bubo scandiacus'' ''1'' False)\<lparr>date := ''Feb 10, 2026 08:00''\<rparr>,
      (new_sighting ''Snowy Owl'' ''Bubo scandiacus'' ''1'' False)\<lparr>date := ''Feb 01, 2026 08:00''\<rparr>]
   = [(new_sighting ''Snowy Owl'' ''Bubo scandiacus'' ''1'' False)\<lparr>date := ''Feb 10, 2026 08:00''\<rparr>]"
  by (simp add: filter_by_days_def newest_date_def send_dates_def date_minus_days_def
      all_sightings_def spec_day_filter_def report_day_def parse_reported_date_def
      example_lib_def string_eval)

section \<open>The API adapter: the confirmed flag\<close>

text \<open>
  C7. The \<open>confirmed\<close> entry of the record made from an observation is
  \<^verbatim>\<open>reviewed and valid\<close>, a missing flag being \<^verbatim>\<open>False\<close>: it is true exactly when both flags
  are true, and when the flags are booleans (or missing) it is the boolean that is
  \<^verbatim>\<open>True\<close> exactly when both are present and \<^verbatim>\<open>True\<close>.
\<close>

theorem api_confirmed_is_and:
  "api_sighting lib lang obs = Inr (Some r) \<Longrightarrow>
     confirmed r = api_confirmed obs \<and>
     py_truthy (confirmed r) =
       (py_truthy (obs_get obs ''obsReviewed'' (PBool False)) \<and>
        py_truthy (obs_get obs ''obsValid'' (PBool False))) \<and>
     ((\<forall>v. obs ''obsReviewed'' = Some v \<longrightarrow> (\<exists>b. v = PBool b)) \<and>
      (\<forall>v. obs ''obsValid'' = Some v \<longrightarrow> (\<exists>b. v = PBool b)) \<longrightarrow>
        confirmed r =
          PBool (obs ''obsReviewed'' = Some (PBool True) \<and> obs ''obsValid'' = Some (PBool True)))"
proof (intro conjI impI)
  assume r: "api_sighting lib lang obs = Inr (Some r)"
  then show c: "confirmed r = api_confirmed obs"
    by (auto simp: api_sighting_def Let_def split: if_splits sum.splits)
  show "py_truthy (confirmed r) =
       (py_truthy (obs_get obs ''obsReviewed'' (PBool False)) \<and>
        py_truthy (obs_get obs ''obsValid'' (PBool False)))"
    unfolding c by (simp add: api_confirmed_def py_and_def)
  assume "(\<forall>v. obs ''obsReviewed'' = Some v \<longrightarrow> (\<exists>b. v = PBool b)) \<and>
      (\<forall>v. obs ''obsValid'' = Some v \<longrightarrow> (\<exists>b. v = PBool b))"
  then show "confirmed r =
          PBool (obs ''obsReviewed'' = Some (PBool True) \<and> obs ''obsValid'' = Some (PBool True))"
    unfolding c by (auto simp: api_confirmed_def py_and_def obs_get_def split: option.splits)
qed


theorem api_confirmed_is_and_witness:
  "api_sighting example_lib example_lang
     [''lat'' \<mapsto> PFloat (Fin (85 / 2)), ''lng'' \<mapsto> PFloat (Fin (- (143 / 2))),
      ''comName'' \<mapsto> PStr ''Snowy Owl'', ''sciName'' \<mapsto> PStr ''Bubo scandiacus'',
      ''obsDt'' \<mapsto> PStr ''2026-02-05 15:08'', ''subId'' \<mapsto> PStr ''S123'',
      ''obsReviewed'' \<mapsto> PBool True, ''obsValid'' \<mapsto> PBool True]
   = Inr (Some
       \<lparr>species = PStr ''Snowy Owl'', scientific = PStr ''Bubo scandiacus'', count_s = ''?'',
        confirmed = PBool True, location = PStr [], lat = Some (Fin (85 / 2)),
        lon = Some (Fin (- (143 / 2))), date = ''Feb 05, 2026 15:08'', observer = PStr [],
        comments = [], checklist = ''https://ebird.org/checklist/S123''\<rparr>) \<and>
   confirmed
       \<lparr>species = PStr ''Snowy Owl'', scientific = PStr ''Bubo scandiacus'', count_s = ''?'',
        confirmed = PBool True, location = PStr [], lat = Some (Fin (85 / 2)),
        lon = Some (Fin (- (143 / 2))), date = ''Feb 05, 2026 15:08'', observer = PStr [],
        comments = [], checklist = ''https://ebird.org/checklist/S123''\<rparr>
   = PBool ([''lat'' \<mapsto> PFloat (Fin (85 / 2)), ''lng'' \<mapsto> PFloat (Fin (- (143 / 2))),
      ''comName'' \<mapsto> PStr ''Snowy Owl'', ''sciName'' \<mapsto> PStr ''Bubo scandiacus'',
      ''obsDt'' \<mapsto> PStr ''2026-02-05 15:08'', ''subId'' \<mapsto> PStr ''S123'',
      ''obsReviewed'' \<mapsto> PBool True, ''obsValid'' \<mapsto> PBool True] ''obsReviewed'' = Some (PBool True) \<and>
      [''lat'' \<mapsto> PFloat (Fin (85 / 2)), ''lng'' \<mapsto> PFloat (Fin (- (143 / 2))),
      ''comName'' \<mapsto> PStr ''Snowy Owl'', ''sciName'' \<mapsto> PStr ''Bubo scandiacus'',
      ''obsDt'' \<mapsto> PStr ''2026-02-05 15:08'', ''subId'' \<mapsto> PStr ''S123'',
      ''obsReviewed'' \<mapsto> PBool True, ''obsValid'' \<mapsto> PBool True] ''obsValid'' = Some (PBool True))"
proof -
  let ?obs = "[''lat'' \<mapsto> PFloat (Fin (85 / 2)), ''lng'' \<mapsto> PFloat (Fin (- (143 / 2))),
      ''comName'' \<mapsto> PStr ''Snowy Owl'', ''sciName'' \<mapsto> PStr ''Bubo scandiacus'',
      ''obsDt'' \<mapsto> PStr ''2026-02-05 15:08'', ''subId'' \<mapsto> PStr ''S123'',
      ''obsReviewed'' \<mapsto> PBool True, ''obsValid'' \<mapsto> PBool True]"
  let ?r = "\<lparr>species = PStr ''Snowy Owl'', scientific = PStr ''Bubo scandiacus'', count_s = ''?'',
        confirmed = PBool True, location = PStr [], lat = Some (Fin (85 / 2)),
        lon = Some (Fin (- (143 / 2))), date = ''Feb 05, 2026 15:08'', observer = PStr [],
        comments = [], checklist = ''https://ebird.org/checklist/S123''\<rparr>"
  have r: "api_sighting example_lib example_lang ?obs = Inr (Some ?r)"
    by (simp add: api_sighting_def api_date_def api_confirmed_def py_and_def obs_get_def
        example_lib_def example_lang_def)
  have flags: "(\<forall>v. ?obs ''obsReviewed'' = Some v \<longrightarrow> (\<exists>b. v = PBool b)) \<and>
      (\<forall>v. ?obs ''obsValid'' = Some v \<longrightarrow> (\<exists>b. v = PBool b))"
    by auto
  from api_confirmed_is_and [OF r] flags
  have "confirmed ?r = PBool (?obs ''obsReviewed'' = Some (PBool True) \<and> ?obs ''obsValid'' = Some (PBool True))"
    by blast
  with r show ?thesis by blast
qed

section \<open>The API adapter: the date\<close>

lemma reformat_date_two:
  assumes "\<forall>fmt e. strptime lib s fmt = Inl e \<longrightarrow> e = ValueError"
    and "\<forall>fmt dt. strptime lib s fmt = Inr dt \<longrightarrow> (\<exists>out. strftime lib dt ''%b %d, %Y %H:%M'' = Inr out)"
  shows "reformat_date lib (PStr s) [f1, f2] =
           (case strptime lib s f1 of
              Inr dt \<Rightarrow> strftime lib dt ''%b %d, %Y %H:%M''
            | Inl e \<Rightarrow>
                (case strptime lib s f2 of
                   Inr dt \<Rightarrow> strftime lib dt ''%b %d, %Y %H:%M''
                 | Inl e \<Rightarrow> Inr []))"
proof -
  have a: "strptime lib s fmt = Inl e \<Longrightarrow> e = ValueError" for fmt e
    using assms(1) by blast
  have b: "strptime lib s fmt = Inr dt \<Longrightarrow> \<exists>out. strftime lib dt ''%b %d, %Y %H:%M'' = Inr out" for fmt dt
    using assms(2) by blast
  show ?thesis
  proof (cases "strptime lib s f1")
    case (Inr dt)
    with b [OF Inr] show ?thesis by auto
  next
    case (Inl e)
    then have e: "e = ValueError" by (rule a)
    show ?thesis
    proof (cases "strptime lib s f2")
      case (Inr dt)
      with b [OF Inr] Inl e show ?thesis by auto
    next
      case Inl2: (Inl e2)
      then have "e2 = ValueError" by (rule a)
      with Inl e Inl2 show ?thesis by simp
    qed
  qed
qed

text \<open>
  C8. For an observation whose \<^verbatim>\<open>obsDt\<close> is a string \<open>s\<close>, with a library whose
  \<^verbatim>\<open>strptime\<close> raises nothing but ValueError on \<open>s\<close> and whose \<^verbatim>\<open>strftime\<close> formats what
  \<^verbatim>\<open>strptime\<close> returned: the date is the empty string for an empty \<open>s\<close>; otherwise the
  date-and-time format is tried first and the date-only format second, the first
  success is reformatted with the display format, and the date is the empty string
  when both fail. No exception leaves the reformatting, and the result is the \<open>date\<close>
  entry of the record.
\<close>

theorem api_date_reformat:
  assumes "obs ''obsDt'' = Some (PStr s)"
    and "\<forall>fmt e. strptime lib s fmt = Inl e \<longrightarrow> e = ValueError"
    and "\<forall>fmt dt. strptime lib s fmt = Inr dt \<longrightarrow> (\<exists>out. strftime lib dt ''%b %d, %Y %H:%M'' = Inr out)"
  shows "api_date lib obs =
           (if s = [] then Inr []
            else case strptime lib s ''%Y-%m-%d %H:%M'' of
                   Inr dt \<Rightarrow> strftime lib dt ''%b %d, %Y %H:%M''
                 | Inl e \<Rightarrow>
                     (case strptime lib s ''%Y-%m-%d'' of
                        Inr dt \<Rightarrow> strftime lib dt ''%b %d, %Y %H:%M''
                      | Inl e \<Rightarrow> Inr [])) \<and>
         (\<exists>date_str. api_date lib obs = Inr date_str) \<and>
         (api_sighting lib lang obs = Inr (Some r) \<longrightarrow> api_date lib obs = Inr (date r))"
proof (intro conjI impI)
  show eq: "api_date lib obs =
           (if s = [] then Inr []
            else case strptime lib s ''%Y-%m-%d %H:%M'' of
                   Inr dt \<Rightarrow> strftime lib dt ''%b %d, %Y %H:%M''
                 | Inl e \<Rightarrow>
                     (case strptime lib s ''%Y-%m-%d'' of
                        Inr dt \<Rightarrow> strftime lib dt ''%b %d, %Y %H:%M''
                      | Inl e \<Rightarrow> Inr []))"
    using assms(1) reformat_date_two [OF assms(2,3)]
    by (simp add: api_date_def obs_get_def del: reformat_date.simps)
  show "\<exists>date_str. api_date lib obs = Inr date_str"
    unfolding eq using assms(3) by (auto split: sum.splits)
  assume "api_sighting lib lang obs = Inr (Some r)"
  then show "api_date lib obs = Inr (date r)"
    by (auto simp: api_sighting_def Let_def split: if_splits sum.splits)
qed


theorem api_date_reformat_witness:
  "api_date example_lib [''lat'' \<mapsto> PFloat (Fin (85 / 2)), ''obsDt'' \<mapsto> PStr ''2026-02-05'']
     = Inr ''Feb 05, 2026 00:00'' \<and>
   strptime example_lib ''2026-02-05'' ''%Y-%m-%d %H:%M'' = Inl ValueError"
proof -
  let ?obs = "[''lat'' \<mapsto> PFloat (Fin (85 / 2)), ''obsDt'' \<mapsto> PStr ''2026-02-05'']"
  have h1: "?obs ''obsDt'' = Some (PStr ''2026-02-05'')" by simp
  have h2: "\<forall>fmt e. strptime example_lib ''2026-02-05'' fmt = Inl e \<longrightarrow> e = ValueError"
    by (simp add: example_lib_def)
  have h3: "\<forall>fmt dt. strptime example_lib ''2026-02-05'' fmt = Inr dt \<longrightarrow>
              (\<exists>out. strftime example_lib dt ''%b %d, %Y %H:%M'' = Inr out)"
    by (auto simp: example_lib_def split: if_splits)
  have "api_date example_lib ?obs =
           (if ''2026-02-05'' = [] then Inr []
            else case strptime example_lib ''2026-02-05'' ''%Y-%m-%d %H:%M'' of
                   Inr dt \<Rightarrow> strftime example_lib dt ''%b %d, %Y %H:%M''
                 | Inl e \<Rightarrow>
                     (case strptime example_lib ''2026-02-05'' ''%Y-%m-%d'' of
                        Inr dt \<Rightarrow> strftime example_lib dt ''%b %d, %Y %H:%M''
                      | Inl e \<Rightarrow> Inr []))"
    using api_date_reformat [where obs = ?obs and s = "''2026-02-05''" and lib = example_lib,
        OF h1 h2 h3]
    by (rule conjunct1)
  then show ?thesis by (simp add: example_lib_def)
qed


section \<open>Float rounding stays between integer bounds\<close>

lemma log2_floor_bounds: "0 < n \<Longrightarrow> 2 ^ log2_floor n \<le> n \<and> n < 2 ^ Suc (log2_floor n)"
proof (induction n rule: log2_floor.induct)
  case (1 n)
  show ?case
  proof (cases "n < 2")
    case True
    with "1.prems" show ?thesis by (simp add: log2_floor.simps)
  next
    case False
    then have "0 < n div 2" by simp
    with "1.IH" False have "2 ^ log2_floor (n div 2) \<le> n div 2 \<and> n div 2 < 2 ^ Suc (log2_floor (n div 2))"
      by simp
    moreover have "log2_floor n = Suc (log2_floor (n div 2))"
      using False by (subst log2_floor.simps) simp
    ultimately show ?thesis by auto
  qed
qed

lemma ilog2_lower: 
  assumes "0 < q"
  shows "2 powi (ilog2 q) \<le> q"
proof (cases "1 \<le> q")
  case True
  then have pos: "0 < nat \<lfloor>q\<rfloor>" by simp
  have "(2::rat) powi (ilog2 q) = 2 ^ log2_floor (nat \<lfloor>q\<rfloor>)"
    using True by (simp add: ilog2_def)
  also have "\<dots> \<le> of_nat (nat \<lfloor>q\<rfloor>)"
    using log2_floor_bounds [OF pos] by (metis of_nat_le_iff of_nat_numeral of_nat_power)
  also have "\<dots> \<le> q"
    using True by simp
  finally show ?thesis .
next
  case False
  define r where "r = 1 / q"
  have r: "1 < r" using False assms by (simp add: r_def)
  then have c: "2 \<le> \<lceil>r\<rceil>" by linarith
  define m where "m = nat (\<lceil>r\<rceil> - 1)"
  have pos: "0 < m" using c by (simp add: m_def)
  define k where "k = log2_floor m"
  have "m < 2 ^ Suc k" using log2_floor_bounds [OF pos] by (simp add: k_def)
  then have "int m < 2 ^ Suc k" by (metis of_nat_less_iff of_nat_numeral of_nat_power)
  then have "\<lceil>r\<rceil> \<le> 2 ^ Suc k" using c by (simp add: m_def)
  then have "r \<le> of_int (2 ^ Suc k)" by (simp only: ceiling_le_iff)
  then have rk: "r \<le> 2 ^ Suc k" by simp
  have "ilog2 q = - int (Suc k)"
    using False by (simp add: ilog2_def k_def m_def r_def)
  then have "(2::rat) powi (ilog2 q) = 1 / 2 powi int (Suc k)"
    by (simp only: power_int_minus_divide)
  then have "(2::rat) powi (ilog2 q) = 1 / 2 ^ Suc k"
    by (simp only: power_int_of_nat)
  also have "\<dots> \<le> 1 / r"
    using rk r by (intro divide_left_mono) auto
  also have "\<dots> = q" by (simp add: r_def)
  finally show ?thesis .
qed

lemma ilog2_less:
  assumes "0 < q" and "q < 2 ^ n"
  shows "ilog2 q < int n"
proof (rule ccontr)
  assume "\<not> ilog2 q < int n"
  then have "int n \<le> ilog2 q" by simp
  then have "(2::rat) powi int n \<le> 2 powi ilog2 q"
    by (intro power_int_increasing) auto
  with ilog2_lower [OF assms(1)] assms(2) show False by simp
qed

lemma round_half_even_ge: "of_int n \<le> r \<Longrightarrow> n \<le> round_half_even r"
proof -
  assume "of_int n \<le> r"
  then have "n \<le> \<lfloor>r\<rfloor>" by (simp add: le_floor_iff)
  then show ?thesis by (auto simp: round_half_even_def Let_def)
qed

lemma round_half_even_le: "r \<le> of_int n \<Longrightarrow> round_half_even r \<le> n"
proof -
  assume a: "r \<le> of_int n"
  then have f: "\<lfloor>r\<rfloor> \<le> n" by (simp add: floor_le_iff) 
  show ?thesis
  proof (cases "\<lfloor>r\<rfloor> = n")
    case True
    then have "r = of_int n" using a by (metis of_int_floor_le order_antisym)
    then show ?thesis by (simp add: round_half_even_def)
  next
    case False
    with f have "\<lfloor>r\<rfloor> + 1 \<le> n" by simp
    then show ?thesis using f by (auto simp: round_half_even_def Let_def)
  qed
qed

lemma round_half_even_near: "\<bar>of_int (round_half_even r) - r\<bar> \<le> 1 / 2"
proof -
  have "of_int \<lfloor>r\<rfloor> \<le> r" "r < of_int \<lfloor>r\<rfloor> + 1" by linarith+
  then show ?thesis
    by (auto simp: round_half_even_def Let_def abs_le_iff)
qed


lemma float_of_rat_small:
  assumes ax: "of_int a \<le> x" and xb: "x \<le> of_int b"
    and a: "- (2 ^ n) < a" and b: "b < 2 ^ n" and n: "n \<le> 53"
  shows "\<exists>y. float_of_rat x = Fin y \<and> of_int a \<le> y \<and> y \<le> of_int b \<and>
             \<bar>y - x\<bar> \<le> 2 powi (int n - 54)"
proof (cases "x = 0")
  case True
  with ax xb show ?thesis by (auto simp: float_of_rat_def)
next
  case False
  have A: "of_int (- (2 ^ n)) < (of_int a :: rat)" using a by (simp only: of_int_less_iff)
  from less_le_trans [OF A ax] have lo: "- (2 ^ n) < x" by simp
  have B: "(of_int b :: rat) < of_int (2 ^ n)" using b by (simp only: of_int_less_iff)
  from le_less_trans [OF xb B] have hi: "x < 2 ^ n" by simp
  from lo hi have absx: "\<bar>x\<bar> < 2 ^ n" by (simp add: abs_less_iff)
  have e: "ilog2 \<bar>x\<bar> < int n"
    using False absx by (intro ilog2_less) auto
  define p where "p = max (ilog2 \<bar>x\<bar> - 52) (- 1074)"
  have p_le: "p \<le> int n - 53" using e n by (simp add: p_def)
  then have p0: "p \<le> 0" using n by simp
  define k where "k = nat (- p)"
  define K :: rat where "K = 2 ^ k"
  have Kpos: "0 < K" by (simp add: K_def)
  have "p = - int k" using p0 by (simp add: k_def)
  then have "(2::rat) powi p = 1 / 2 powi int k" by (simp only: power_int_minus_divide)
  then have pw: "(2::rat) powi p = 1 / K" by (simp add: K_def)
  define m where "m = round_half_even (x * K)"
  define v :: rat where "v = of_int m / K"
  have fl: "float_of_rat x = (if 2 powi 1024 \<le> \<bar>v\<bar> then (if 0 < x then PInf else NInf) else Fin v)"
    using False by (simp add: float_of_rat_def Let_def p_def [symmetric] pw m_def v_def)
  have Kint: "K = of_int (2 ^ k)" by (simp add: K_def)
  have "of_int (a * 2 ^ k) \<le> x * K"
    using ax Kpos by (simp add: Kint mult_right_mono)
  then have "a * 2 ^ k \<le> m" unfolding m_def by (rule round_half_even_ge)
  then have "(of_int (a * 2 ^ k) :: rat) \<le> of_int m" by (simp only: of_int_le_iff)
  then have "of_int a * K \<le> of_int m" by (simp add: Kint)
  then have av: "of_int a \<le> v" using Kpos by (simp add: v_def pos_le_divide_eq)
  have "x * K \<le> of_int (b * 2 ^ k)"
    using xb Kpos by (simp add: Kint mult_right_mono)
  then have "m \<le> b * 2 ^ k" unfolding m_def by (rule round_half_even_le)
  then have "(of_int m :: rat) \<le> of_int (b * 2 ^ k)" by (simp only: of_int_le_iff)
  then have "of_int m \<le> of_int b * K" by (simp add: Kint)
  then have vb: "v \<le> of_int b" using Kpos by (simp add: v_def pos_divide_le_eq)
  from less_le_trans [OF A av] have "- (2 ^ n) < v" by simp
  moreover from le_less_trans [OF vb B] have "v < 2 ^ n" by simp
  ultimately have "\<bar>v\<bar> < 2 ^ n" by (simp add: abs_less_iff)
  also have "(2::rat) ^ n \<le> 2 ^ 1024" using n by (intro power_increasing) auto
  finally have "\<not> 2 powi 1024 \<le> \<bar>v\<bar>" by simp
  with fl have flv: "float_of_rat x = Fin v" by simp
  have near: "\<bar>of_int m - x * K\<bar> \<le> 1 / 2" unfolding m_def by (rule round_half_even_near)
  have "\<bar>of_int m - x * K\<bar> / K \<le> (1 / 2) / K"
    using Kpos by (intro divide_right_mono [OF near]) simp
  moreover have "\<bar>of_int m - x * K\<bar> / K = \<bar>v - x\<bar>"
  proof -
    have "v - x = (of_int m - x * K) / K" using Kpos by (simp add: v_def diff_divide_distrib)
    then show ?thesis using Kpos by (simp add: abs_divide)
  qed
  moreover have "(1 / 2) / K = 2 powi (p - 1)"
    using pw by (simp add: power_int_diff)
  moreover have "(2::rat) powi (p - 1) \<le> 2 powi (int n - 54)"
    using p_le by (intro power_int_increasing) auto
  ultimately have "\<bar>v - x\<bar> \<le> 2 powi (int n - 54)" by simp
  with flv av vb show ?thesis by blast
qed


lemma channel_interpolates:
  assumes q: "0 \<le> q" "q \<le> 1" and c: "0 \<le> c0" "c0 \<le> 255" "0 \<le> c1" "c1 \<le> 255"
  shows "\<exists>v. channel c0 c1 (PyFloat (Fin q)) = Inr \<lfloor>v\<rfloor> \<and>
             \<bar>v - (of_int c0 + of_int (c1 - c0) * q)\<bar> \<le> 1 / 2 ^ 45 \<and>
             min c0 c1 \<le> \<lfloor>v\<rfloor> \<and> \<lfloor>v\<rfloor> \<le> max c0 c1"
proof -
  define d where "d = c1 - c0"
  define x1 :: rat where "x1 = of_int d * q"
  have "of_int (min 0 d) \<le> x1"
  proof (cases "0 \<le> d")
    case True
    then show ?thesis using q by (simp add: x1_def)
  next
    case False
    then have "of_int d * 1 \<le> (of_int d :: rat) * q"
      using q by (intro mult_left_mono_neg) auto
    with False show ?thesis by (simp add: x1_def min_def)
  qed
  moreover have "x1 \<le> of_int (max 0 d)"
  proof (cases "0 \<le> d")
    case True
    then have "(of_int d :: rat) * q \<le> of_int d * 1"
      using q by (intro mult_left_mono) auto
    with True show ?thesis by (simp add: x1_def max_def)
  next
    case False
    then have "(of_int d :: rat) * q \<le> 0"
      using q by (simp add: mult_le_0_iff)
    with False show ?thesis by (simp add: x1_def max_def)
  qed
  moreover have "- (2 ^ 8) < min 0 d" "max 0 d < 2 ^ 8"
    using c by (simp_all add: d_def)
  ultimately obtain y1 where y1: "float_of_rat x1 = Fin y1"
    and y1lo: "of_int (min 0 d) \<le> y1" and y1hi: "y1 \<le> of_int (max 0 d)"
    and y1err: "\<bar>y1 - x1\<bar> \<le> 2 powi (int 8 - 54)"
    using float_of_rat_small [of "min 0 d" x1 "max 0 d" 8] by auto
  define x2 :: rat where "x2 = of_int c0 + y1"
  have "min c0 c1 = c0 + min 0 d" "max c0 c1 = c0 + max 0 d"
    by (auto simp: d_def)
  then have "of_int (min c0 c1) \<le> x2" "x2 \<le> of_int (max c0 c1)"
    using y1lo y1hi by (simp_all add: x2_def)
  moreover have "- (2 ^ 8) < min c0 c1" "max c0 c1 < 2 ^ 8"
    using c by simp_all
  ultimately obtain y2 where y2: "float_of_rat x2 = Fin y2"
    and y2lo: "of_int (min c0 c1) \<le> y2" and y2hi: "y2 \<le> of_int (max c0 c1)"
    and y2err: "\<bar>y2 - x2\<bar> \<le> 2 powi (int 8 - 54)"
    using float_of_rat_small [of "min c0 c1" x2 "max c0 c1" 8] by auto
  have "0 \<le> min c0 c1" using c by simp
  then have "(0::rat) \<le> of_int (min c0 c1)" by (simp only: of_int_0_le_iff)
  with y2lo have y2pos: "0 \<le> y2" by linarith
  have ch: "channel c0 c1 (PyFloat (Fin q)) = Inr \<lfloor>y2\<rfloor>"
    using y1 y2 y2pos by (simp add: channel_def x1_def x2_def d_def)
  have pw: "(2::rat) powi (int 8 - 54) = 1 / 2 ^ 46"
    by (simp add: power_int_minus_divide)
  have "y2 - (of_int c0 + of_int (c1 - c0) * q) = (y2 - x2) + (y1 - x1)"
    by (simp add: x2_def x1_def d_def)
  then have "\<bar>y2 - (of_int c0 + of_int (c1 - c0) * q)\<bar> \<le> \<bar>y2 - x2\<bar> + \<bar>y1 - x1\<bar>"
    by (simp only: abs_triangle_ineq)
  also have "\<dots> \<le> 1 / 2 ^ 46 + 1 / 2 ^ 46"
    using y1err y2err unfolding pw by (rule add_mono [rotated])
  also have "\<dots> = 1 / 2 ^ 45" by simp
  finally have err: "\<bar>y2 - (of_int c0 + of_int (c1 - c0) * q)\<bar> \<le> 1 / 2 ^ 45" .
  have "min c0 c1 \<le> \<lfloor>y2\<rfloor>" using y2lo by (simp only: le_floor_iff)
  moreover have "\<lfloor>y2\<rfloor> \<le> max c0 c1"
    using floor_mono [OF y2hi] by simp
  ultimately show ?thesis using ch err by blast
qed


section \<open>The colour scale\<close>

lemma format_02x_byte:
  assumes "0 \<le> n" and "n \<le> 255"
  shows "format_02x n = [hex_digit (nat n div 16), hex_digit (nat n mod 16)]"
proof (cases "n < 16")
  case True
  have "hex_digit 0 = CHR ''0''" by (simp add: hex_digit_def)
  moreover have "nat n < 16" using True assms by simp
  ultimately show ?thesis using True assms by (simp add: format_02x_def hex.simps)
next
  case False
  with assms have "nat n div 16 < 16" "\<not> nat n < 16" by auto
  with False assms show ?thesis
    by (simp add: format_02x_def hex.simps [of "nat n"] hex.simps [of "nat n div 16"])
qed

lemmas color_eval = age_color_def channel_def format_02x_def hex.simps hex_digit_def

text \<open>
  C2 (as amended). \<open>age_color\<close> returns \<^verbatim>\<open>#e74c3c\<close> for the fraction 0.0 (and for the
  int 0) and \<^verbatim>\<open>#2c3e50\<close> for 1.0. For every fraction in [0, 1] each channel is the float
  value of \<^verbatim>\<open>newest + (oldest - newest) * fraction\<close>, which lies within \<open>2 ^ -45\<close> of the
  exact value, truncated toward zero (not rounded to the nearest integer); it lies
  between the two endpoint channels, so within 0-255, and is written as two hexadecimal
  digits. For 0.5 the result is \<^verbatim>\<open>#894546\<close>, the truncated midpoint (137, 69, 70).
\<close>

theorem age_color_truncates:
  "age_color (PyFloat (Fin 0)) = Inr ''#e74c3c'' \<and>
   age_color (PyFloat (Fin 1)) = Inr ''#2c3e50'' \<and>
   age_color (PyFloat (Fin (1 / 2))) = Inr ''#894546'' \<and>
   age_color (PyInt 0) = Inr ''#e74c3c'' \<and>
   (0 \<le> q \<and> q \<le> 1 \<longrightarrow>
      (\<exists>vr vg vb.
         age_color (PyFloat (Fin q)) =
           Inr (CHR ''#'' #
                [hex_digit (nat \<lfloor>vr\<rfloor> div 16), hex_digit (nat \<lfloor>vr\<rfloor> mod 16)] @
                [hex_digit (nat \<lfloor>vg\<rfloor> div 16), hex_digit (nat \<lfloor>vg\<rfloor> mod 16)] @
                [hex_digit (nat \<lfloor>vb\<rfloor> div 16), hex_digit (nat \<lfloor>vb\<rfloor> mod 16)]) \<and>
         \<bar>vr - (231 + (44 - 231) * q)\<bar> \<le> 1 / 2 ^ 45 \<and> 44 \<le> \<lfloor>vr\<rfloor> \<and> \<lfloor>vr\<rfloor> \<le> 231 \<and>
         \<bar>vg - (76 + (62 - 76) * q)\<bar> \<le> 1 / 2 ^ 45 \<and> 62 \<le> \<lfloor>vg\<rfloor> \<and> \<lfloor>vg\<rfloor> \<le> 76 \<and>
         \<bar>vb - (60 + (80 - 60) * q)\<bar> \<le> 1 / 2 ^ 45 \<and> 60 \<le> \<lfloor>vb\<rfloor> \<and> \<lfloor>vb\<rfloor> \<le> 80))"
proof (intro conjI impI)
  show "age_color (PyFloat (Fin 0)) = Inr ''#e74c3c''"
    by (simp add: color_eval float_eval)
  show "age_color (PyFloat (Fin 1)) = Inr ''#2c3e50''"
    by (simp add: color_eval float_eval)
  show "age_color (PyFloat (Fin (1 / 2))) = Inr ''#894546''"
    by (simp add: color_eval float_eval)
  show "age_color (PyInt 0) = Inr ''#e74c3c''"
    by (simp add: color_eval)
next
  assume q: "0 \<le> q \<and> q \<le> 1"
  obtain vr where r: "channel 231 44 (PyFloat (Fin q)) = Inr \<lfloor>vr\<rfloor>"
    "\<bar>vr - (of_int 231 + of_int (44 - 231) * q)\<bar> \<le> 1 / 2 ^ 45"
    "min 231 44 \<le> \<lfloor>vr\<rfloor>" "\<lfloor>vr\<rfloor> \<le> max 231 44"
    using channel_interpolates [of q 231 44] q by auto
  obtain vg where g: "channel 76 62 (PyFloat (Fin q)) = Inr \<lfloor>vg\<rfloor>"
    "\<bar>vg - (of_int 76 + of_int (62 - 76) * q)\<bar> \<le> 1 / 2 ^ 45"
    "min 76 62 \<le> \<lfloor>vg\<rfloor>" "\<lfloor>vg\<rfloor> \<le> max 76 62"
    using channel_interpolates [of q 76 62] q by auto
  obtain vb where b: "channel 60 80 (PyFloat (Fin q)) = Inr \<lfloor>vb\<rfloor>"
    "\<bar>vb - (of_int 60 + of_int (80 - 60) * q)\<bar> \<le> 1 / 2 ^ 45"
    "min 60 80 \<le> \<lfloor>vb\<rfloor>" "\<lfloor>vb\<rfloor> \<le> max 60 80"
    using channel_interpolates [of q 60 80] q by auto
  have fr: "format_02x \<lfloor>vr\<rfloor> = [hex_digit (nat \<lfloor>vr\<rfloor> div 16), hex_digit (nat \<lfloor>vr\<rfloor> mod 16)]"
    using r(3,4) by (intro format_02x_byte) auto
  have fg: "format_02x \<lfloor>vg\<rfloor> = [hex_digit (nat \<lfloor>vg\<rfloor> div 16), hex_digit (nat \<lfloor>vg\<rfloor> mod 16)]"
    using g(3,4) by (intro format_02x_byte) auto
  have fb: "format_02x \<lfloor>vb\<rfloor> = [hex_digit (nat \<lfloor>vb\<rfloor> div 16), hex_digit (nat \<lfloor>vb\<rfloor> mod 16)]"
    using b(3,4) by (intro format_02x_byte) auto
  have "age_color (PyFloat (Fin q)) =
           Inr (CHR ''#'' #
                [hex_digit (nat \<lfloor>vr\<rfloor> div 16), hex_digit (nat \<lfloor>vr\<rfloor> mod 16)] @
                [hex_digit (nat \<lfloor>vg\<rfloor> div 16), hex_digit (nat \<lfloor>vg\<rfloor> mod 16)] @
                [hex_digit (nat \<lfloor>vb\<rfloor> div 16), hex_digit (nat \<lfloor>vb\<rfloor> mod 16)])"
    by (simp only: age_color_def r(1) g(1) b(1) sum.case fr fg fb)
  moreover have "\<bar>vr - (231 + (44 - 231) * q)\<bar> \<le> 1 / 2 ^ 45" using r(2) by simp
  moreover have "\<bar>vg - (76 + (62 - 76) * q)\<bar> \<le> 1 / 2 ^ 45" using g(2) by simp
  moreover have "\<bar>vb - (60 + (80 - 60) * q)\<bar> \<le> 1 / 2 ^ 45" using b(2) by simp
  moreover have "44 \<le> \<lfloor>vr\<rfloor>" "\<lfloor>vr\<rfloor> \<le> 231" "62 \<le> \<lfloor>vg\<rfloor>" "\<lfloor>vg\<rfloor> \<le> 76" "60 \<le> \<lfloor>vb\<rfloor>" "\<lfloor>vb\<rfloor> \<le> 80"
    using r(3,4) g(3,4) b(3,4) by simp_all
  ultimately show "\<exists>vr vg vb.
         age_color (PyFloat (Fin q)) =
           Inr (CHR ''#'' #
                [hex_digit (nat \<lfloor>vr\<rfloor> div 16), hex_digit (nat \<lfloor>vr\<rfloor> mod 16)] @
                [hex_digit (nat \<lfloor>vg\<rfloor> div 16), hex_digit (nat \<lfloor>vg\<rfloor> mod 16)] @
                [hex_digit (nat \<lfloor>vb\<rfloor> div 16), hex_digit (nat \<lfloor>vb\<rfloor> mod 16)]) \<and>
         \<bar>vr - (231 + (44 - 231) * q)\<bar> \<le> 1 / 2 ^ 45 \<and> 44 \<le> \<lfloor>vr\<rfloor> \<and> \<lfloor>vr\<rfloor> \<le> 231 \<and>
         \<bar>vg - (76 + (62 - 76) * q)\<bar> \<le> 1 / 2 ^ 45 \<and> 62 \<le> \<lfloor>vg\<rfloor> \<and> \<lfloor>vg\<rfloor> \<le> 76 \<and>
         \<bar>vb - (60 + (80 - 60) * q)\<bar> \<le> 1 / 2 ^ 45 \<and> 60 \<le> \<lfloor>vb\<rfloor> \<and> \<lfloor>vb\<rfloor> \<le> 80"
    by blast
qed

text \<open>
  The claim as stated fails at the fraction 0.5: the red midpoint is 137.5, which rounds
  to 138, and the code yields 137.
\<close>

theorem age_color_counterexample:
  "age_color (PyFloat (Fin (1 / 2))) \<noteq>
     Inr (CHR ''#'' # format_02x (round_half_even ((231 + 44) / 2)) @
          format_02x (round_half_even ((76 + 62) / 2)) @
          format_02x (round_half_even ((60 + 80) / 2)))"
  by (simp add: color_eval float_eval)


theorem age_color_truncates_witness:
  "age_color (PyFloat (Fin (1 / 4))) = Inr ''#b84841'' \<and>
   (\<exists>(vr::rat) (vg::rat) (vb::rat).
      age_color (PyFloat (Fin (1 / 4))) =
        Inr (CHR ''#'' #
             [hex_digit (nat \<lfloor>vr\<rfloor> div 16), hex_digit (nat \<lfloor>vr\<rfloor> mod 16)] @
             [hex_digit (nat \<lfloor>vg\<rfloor> div 16), hex_digit (nat \<lfloor>vg\<rfloor> mod 16)] @
             [hex_digit (nat \<lfloor>vb\<rfloor> div 16), hex_digit (nat \<lfloor>vb\<rfloor> mod 16)]) \<and>
      \<bar>vr - (231 + (44 - 231) * (1 / 4))\<bar> \<le> 1 / 2 ^ 45 \<and> 44 \<le> \<lfloor>vr\<rfloor> \<and> \<lfloor>vr\<rfloor> \<le> 231 \<and>
      \<bar>vg - (76 + (62 - 76) * (1 / 4))\<bar> \<le> 1 / 2 ^ 45 \<and> 62 \<le> \<lfloor>vg\<rfloor> \<and> \<lfloor>vg\<rfloor> \<le> 76 \<and>
      \<bar>vb - (60 + (80 - 60) * (1 / 4))\<bar> \<le> 1 / 2 ^ 45 \<and> 60 \<le> \<lfloor>vb\<rfloor> \<and> \<lfloor>vb\<rfloor> \<le> 80)"
proof
  show "age_color (PyFloat (Fin (1 / 4))) = Inr ''#b84841''"
    by (simp add: color_eval float_eval)
  have "(0::rat) \<le> 1 / 4 \<and> (1 / 4 :: rat) \<le> 1" by simp
  with age_color_truncates [of "1 / 4"]
  show "\<exists>(vr::rat) (vg::rat) (vb::rat).
      age_color (PyFloat (Fin (1 / 4))) =
        Inr (CHR ''#'' #
             [hex_digit (nat \<lfloor>vr\<rfloor> div 16), hex_digit (nat \<lfloor>vr\<rfloor> mod 16)] @
             [hex_digit (nat \<lfloor>vg\<rfloor> div 16), hex_digit (nat \<lfloor>vg\<rfloor> mod 16)] @
             [hex_digit (nat \<lfloor>vb\<rfloor> div 16), hex_digit (nat \<lfloor>vb\<rfloor> mod 16)]) \<and>
      \<bar>vr - (231 + (44 - 231) * (1 / 4))\<bar> \<le> 1 / 2 ^ 45 \<and> 44 \<le> \<lfloor>vr\<rfloor> \<and> \<lfloor>vr\<rfloor> \<le> 231 \<and>
      \<bar>vg - (76 + (62 - 76) * (1 / 4))\<bar> \<le> 1 / 2 ^ 45 \<and> 62 \<le> \<lfloor>vg\<rfloor> \<and> \<lfloor>vg\<rfloor> \<le> 76 \<and>
      \<bar>vb - (60 + (80 - 60) * (1 / 4))\<bar> \<le> 1 / 2 ^ 45 \<and> 60 \<le> \<lfloor>vb\<rfloor> \<and> \<lfloor>vb\<rfloor> \<le> 80"
    by blast
qed


section \<open>The text extractor never raises\<close>

lemma run_consumes:
  "st' \<in> set (run r s st) \<Longrightarrow> \<exists>w. fst st = w @ fst st' \<and> accepts r w"
proof (induction r arbitrary: st st')
  case (Sym cl)
  then show ?case by (cases "fst st") (auto split: if_splits)
next
  case (Rep cl least greedy)
  define most where "most = length (takeWhile (cmatch cl) (fst st))"
  from Rep obtain n where n: "least \<le> n" "n \<le> most" and st': "fst st' = drop n (fst st)"
    by (auto simp: Let_def most_def split: if_splits)
  have "n \<le> length (fst st)"
    using n(2) length_takeWhile_le [of "cmatch cl" "fst st"] by (simp add: most_def)
  moreover have "list_all (cmatch cl) (take n (fst st))"
  proof -
    have "take n (fst st) = take n (takeWhile (cmatch cl) (fst st))"
      using n(2) by (metis most_def takeWhile_dropWhile_id take_all take_append append_take_drop_id
          diff_is_0_eq' take0 append_Nil2 order_refl)
    moreover have "list_all (cmatch cl) (takeWhile (cmatch cl) (fst st))"
      by (simp add: list_all_iff) (meson set_takeWhileD)
    ultimately show ?thesis
      by (metis list_all_iff in_set_takeD)
  qed
  ultimately have "fst st = take n (fst st) @ fst st' \<and> accepts (Rep cl least greedy) (take n (fst st))"
    using n(1) st' by simp
  then show ?case by blast
next
  case (Seq a b)
  from Seq.prems obtain st1 where 1: "st1 \<in> set (run a s st)" and 2: "st' \<in> set (run b s st1)"
    by auto
  from Seq.IH(1) [OF 1] obtain u where u: "fst st = u @ fst st1" "accepts a u" by blast
  from Seq.IH(2) [OF 2] obtain v where v: "fst st1 = v @ fst st'" "accepts b v" by blast
  from u v have "fst st = (u @ v) @ fst st' \<and> accepts (Seq a b) (u @ v)" by auto
  then show ?case by blast
next
  case (Opt r)
  from Opt.prems have "st' \<in> set (run r s st) \<or> st' = st" by auto
  then show ?case
  proof
    assume "st' \<in> set (run r s st)"
    from Opt.IH [OF this] show ?thesis by auto
  next
    assume "st' = st"
    then show ?thesis by simp
  qed
next
  case (Group n r)
  from Group.prems obtain st1 where 1: "st1 \<in> set (run r s st)" and 2: "fst st' = fst st1"
    by auto
  from Group.IH [OF 1] 2 show ?case by simp
next
  case (NotAhead r)
  then show ?case by (auto split: list.splits)
qed (auto split: if_splits)

lemma run_keeps_caps:
  "st' \<in> set (run r s st) \<Longrightarrow> k \<notin> caps_of r \<Longrightarrow> snd st' k = snd st k"
proof (induction r arbitrary: st st')
  case (Sym cl)
  then show ?case by (cases "fst st") (auto split: if_splits)
next
  case (Rep cl least greedy)
  then show ?case by (auto simp: Let_def split: if_splits)
next
  case (Seq a b)
  from Seq.prems obtain st1 where 1: "st1 \<in> set (run a s st)" and 2: "st' \<in> set (run b s st1)"
    by auto
  from Seq.IH(1) [OF 1] Seq.IH(2) [OF 2] Seq.prems(2) show ?case by auto
next
  case (Opt r)
  from Opt.prems(1) have "st' \<in> set (run r s st) \<or> st' = st" by auto
  then show ?case
  proof
    assume "st' \<in> set (run r s st)"
    from Opt.IH [OF this] Opt.prems(2) show ?thesis by simp
  next
    assume "st' = st"
    then show ?thesis by simp
  qed
next
  case (Group n r)
  from Group.prems(1) obtain st1 where 1: "st1 \<in> set (run r s st)"
    and 2: "snd st' = (snd st1)(n \<mapsto> take (length (fst st) - length (fst st1)) (fst st))"
    by auto
  from Group.IH [OF 1] Group.prems(2) 2 show ?case by simp
next
  case (NotAhead r)
  then show ?case by (auto split: list.splits)
qed (auto split: if_splits)

lemma run_group_cap:
  assumes "st' \<in> set (run (Group n r) s st)"
  shows "\<exists>w. fst st = w @ fst st' \<and> accepts r w \<and> snd st' n = Some w"
proof -
  from assms obtain st1 where 1: "st1 \<in> set (run r s st)"
    and 2: "st' = (fst st1, (snd st1)(n \<mapsto> take (length (fst st) - length (fst st1)) (fst st)))"
    by auto
  from run_consumes [OF 1] obtain w where w: "fst st = w @ fst st1" "accepts r w" by blast
  with 2 show ?thesis by auto
qed


lemma not_digit_simps [simp]: "\<not> is_digit CHR ''-''" "\<not> is_digit CHR ''.''"
  by (simp_all add: is_digit_def ord_def)

lemma cmatch_Digit [simp]: "cmatch Digit = is_digit"
  by (rule ext) simp

lemma unsigned_float_digits:
  assumes "ds \<noteq> []" and "list_all is_digit ds"
  shows "unsigned_float neg ds = Inr (float_of_rat (decimal_value neg ds []))"
proof -
  have tw: "takeWhile is_digit ds = ds" and dw: "dropWhile is_digit ds = []"
    using assms(2) by (simp_all add: list_all_iff)
  show ?thesis unfolding unsigned_float_def Let_def tw dw
    using assms(1) by simp
qed

lemma unsigned_float_point:
  assumes "d1 \<noteq> []" and "list_all is_digit d1" and "list_all is_digit d2"
  shows "unsigned_float neg (d1 @ CHR ''.'' # d2) = Inr (float_of_rat (decimal_value neg d1 d2))"
proof -
  have tw: "takeWhile is_digit (d1 @ CHR ''.'' # d2) = d1"
    and dw: "dropWhile is_digit (d1 @ CHR ''.'' # d2) = CHR ''.'' # d2"
    using assms(2) by (simp_all add: list_all_iff takeWhile_append2 dropWhile_append2)
  show ?thesis unfolding unsigned_float_def Let_def tw dw
    using assms(1,3) by simp
qed

lemma unsigned_float_ok:
  assumes d1: "d1 \<noteq> []" "list_all is_digit d1" and d2: "list_all is_digit d2"
    and dt: "dt = [] \<or> dt = ''.''"
  shows "\<exists>x. unsigned_float neg (d1 @ dt @ d2) = Inr x"
  using dt
proof
  assume "dt = []"
  moreover have "d1 @ d2 \<noteq> []" "list_all is_digit (d1 @ d2)" using d1 d2 by simp_all
  ultimately show ?thesis using unsigned_float_digits [of "d1 @ d2" neg] by simp
next
  assume "dt = ''.''"
  then show ?thesis using unsigned_float_point [OF d1 d2, of neg] by simp
qed

lemma accepts_SeqE:
  assumes "accepts (Seq a b) w"
  obtains u v where "w = u @ v" "accepts a u" "accepts b v"
  using assms by auto

lemma accepts_number_re:
  assumes "accepts number_re w"
  obtains sg d1 dt d2 where "w = sg @ d1 @ dt @ d2" "sg = [] \<or> sg = ''-''"
    "d1 \<noteq> []" "list_all is_digit d1" "dt = [] \<or> dt = ''.''" "list_all is_digit d2"
proof -
  from assms have "accepts (Seq (Opt (Sym (Ch CHR ''-''))) (Seq (Rep Digit 1 True)
      (Seq (Opt (Sym (Ch CHR ''.''))) (Seq (Rep Digit 0 True) Eps)))) w"
    by (simp only: number_re_def seq.simps)
  then obtain sg v1 where 1: "w = sg @ v1" "accepts (Opt (Sym (Ch CHR ''-''))) sg"
    "accepts (Seq (Rep Digit 1 True) (Seq (Opt (Sym (Ch CHR ''.''))) (Seq (Rep Digit 0 True) Eps))) v1"
    by (rule accepts_SeqE)
  from 1(3) obtain d1 v2 where 2: "v1 = d1 @ v2" "accepts (Rep Digit 1 True) d1"
    "accepts (Seq (Opt (Sym (Ch CHR ''.''))) (Seq (Rep Digit 0 True) Eps)) v2"
    by (rule accepts_SeqE)
  from 2(3) obtain dt v3 where 3: "v2 = dt @ v3" "accepts (Opt (Sym (Ch CHR ''.''))) dt"
    "accepts (Seq (Rep Digit 0 True) Eps) v3"
    by (rule accepts_SeqE)
  from 3(3) obtain d2 v4 where 4: "v3 = d2 @ v4" "accepts (Rep Digit 0 True) d2" "accepts Eps v4"
    by (rule accepts_SeqE)
  have "w = sg @ d1 @ dt @ d2" using 1(1) 2(1) 3(1) 4(1,3) by simp
  moreover have "sg = [] \<or> sg = ''-''" using 1(2) by auto
  moreover have "d1 \<noteq> []" "list_all is_digit d1" using 2(2) by auto
  moreover have "dt = [] \<or> dt = ''.''" using 3(2) by auto
  moreover have "list_all is_digit d2" using 4(2) by simp
  ultimately show ?thesis by (rule that)
qed

lemma py_float_number:
  assumes "accepts number_re w"
  shows "\<exists>x. py_float w = Inr x"
proof -
  from assms obtain sg d1 dt d2 where w: "w = sg @ d1 @ dt @ d2"
    and sg: "sg = [] \<or> sg = ''-''" and d1: "d1 \<noteq> []" "list_all is_digit d1"
    and dt: "dt = [] \<or> dt = ''.''" and d2: "list_all is_digit d2"
    by (rule accepts_number_re)
  define body where "body = d1 @ dt @ d2"
  have ok: "\<exists>x. unsigned_float neg body = Inr x" for neg
    unfolding body_def using d1 d2 dt by (rule unsigned_float_ok)
  obtain c cs where c: "d1 = c # cs" "is_digit c" using d1 by (cases d1) auto
  then have cne: "c \<noteq> CHR ''-''" by auto
  obtain rest where bc: "body = c # rest" by (simp add: body_def c)
  from sg show ?thesis
  proof
    assume "sg = []"
    then have "w = body" using w by (simp add: body_def)
    then have "py_float w = unsigned_float False body"
      using cne by (simp add: py_float_def bc)
    with ok show ?thesis by simp
  next
    assume "sg = ''-''"
    then have "w = CHR ''-'' # body" using w by (simp add: body_def)
    then have "py_float w = unsigned_float True body"
      by (simp add: py_float_def)
    with ok show ?thesis by simp
  qed
qed

lemma search_from_result:
  "search_from r s rest = Some m \<Longrightarrow> \<exists>rest' st'. st' \<in> set (run r s (rest', Map.empty)) \<and> m = snd st'"
proof (induction rest)
  case Nil
  then show ?case by (auto split: list.splits) (metis list.set_intros(1) snd_conv)
next
  case (Cons c cs)
  show ?case
  proof (cases "run r s (c # cs, Map.empty)")
    case Nil
    with Cons show ?thesis by simp
  next
    case (Cons st' sts)
    with Cons.prems have "m = snd st'" by simp
    moreover have "st' \<in> set (run r s (c # cs, Map.empty))" using Cons by simp
    ultimately show ?thesis by blast
  qed
qed

lemma coords_groups_are_numbers:
  assumes "re_search coords_re line = Some m"
  shows "accepts number_re (group m 1) \<and> accepts number_re (group m 2)"
proof -
  from assms obtain rest st' where st': "st' \<in> set (run coords_re line (rest, Map.empty))"
    and m: "m = snd st'"
    unfolding re_search_def by (blast dest: search_from_result)
  from st' obtain st1 st2 st3 where
    1: "st1 \<in> set (run (lit ''q='') line (rest, Map.empty))" and
    2: "st2 \<in> set (run (Group 1 number_re) line st1)" and
    3: "st3 \<in> set (run (Sym (Ch CHR '','')) line st2)" and
    4: "st' \<in> set (run (Group 2 number_re) line st3)"
    by (auto simp: coords_re_def simp del: run.simps(2,6))
  from run_group_cap [OF 2] obtain w1 where w1: "accepts number_re w1" "snd st2 1 = Some w1" by blast
  from run_group_cap [OF 4] obtain w2 where w2: "accepts number_re w2" "snd st' 2 = Some w2" by blast
  have "caps_of number_re = {}" by (simp add: number_re_def)
  then have "snd st' 1 = snd st3 1" using run_keeps_caps [OF 4, of 1] by simp
  also have "\<dots> = snd st2 1" using run_keeps_caps [OF 3, of 1] by simp
  finally have "snd st' 1 = Some w1" using w1 by simp
  with w1 w2 m show ?thesis by (simp add: group_def)
qed

lemma update_current_total: "\<exists>cur'. update_current cur line = Inr cur'"
proof (cases "re_search coords_re line")
  case None
  then show ?thesis by (auto simp: update_current_def Let_def split: option.splits)
next
  case (Some m)
  from coords_groups_are_numbers [OF Some] py_float_number
  obtain x y where "py_float (group m 1) = Inr x" "py_float (group m 2) = Inr y" by blast
  with Some show ?thesis by (auto simp: update_current_def Let_def split: option.splits)
qed

lemma process_line_total: "\<exists>st'. process_line st raw = Inr st'"
  using update_current_total
  by (auto simp: process_line_def Let_def split: option.splits sum.splits) (metis Inl_Inr_False)

lemma parse_lines_total: "\<exists>st'. parse_lines raws st = Inr st'"
proof (induction raws arbitrary: st)
  case Nil
  then show ?case by simp
next
  case (Cons raw raws)
  from process_line_total obtain st1 where "process_line st raw = Inr st1" by blast
  with Cons show ?case by simp
qed


lemma startswith_length: "startswith s p \<Longrightarrow> length p \<le> length s"
  by (metis startswith_def length_take min.cobounded1)

lemma startswith_trans:
  assumes "startswith s q" and "startswith q p"
  shows "startswith s p"
proof -
  have le: "length p \<le> length q" using assms(2) by (rule startswith_length)
  have "take (length p) s = take (length p) (take (length q) s)"
    using le by (simp add: min_def)
  also have "\<dots> = take (length p) q" using assms(1) by (simp add: startswith_def)
  also have "\<dots> = p" using assms(2) by (simp add: startswith_def)
  finally show ?thesis by (simp add: startswith_def)
qed

lemma startswith_both:
  assumes "startswith s p" and "startswith s q"
  shows "startswith p q \<or> startswith q p"
proof (cases "length p \<le> length q")
  case True
  have "take (length p) q = take (length p) (take (length q) s)"
    using assms(2) by (simp add: startswith_def)
  also have "\<dots> = take (length p) s" using True by (simp add: min_def)
  also have "\<dots> = p" using assms(1) by (simp add: startswith_def)
  finally show ?thesis by (simp add: startswith_def)
next
  case False
  have "take (length q) p = take (length q) (take (length p) s)"
    using assms(1) by (simp add: startswith_def)
  also have "\<dots> = take (length q) s" using False by (simp add: min_def)
  also have "\<dots> = q" using assms(2) by (simp add: startswith_def)
  finally show ?thesis by (simp add: startswith_def)
qed

lemma update_current_no_bullet:
  assumes "\<not> startswith line ''- ''"
  shows "update_current cur line = Inr cur"
proof -
  have "startswith ''- Reported '' ''- ''" "startswith ''- Map:'' ''- ''"
    "startswith ''- Checklist:'' ''- ''" "startswith ''- Comments:'' ''- ''"
    by (simp_all add: startswith_def)
  then have "\<not> startswith line ''- Reported ''" "\<not> startswith line ''- Map:''"
    "\<not> startswith line ''- Checklist:''" "\<not> startswith line ''- Comments:''"
    using assms startswith_trans by blast+
  with assms show ?thesis by (simp add: update_current_def)
qed

lemma update_current_media:
  assumes "startswith line ''- Media:''"
  shows "update_current cur line = Inr cur"
proof -
  have "\<not> (startswith ''- Media:'' ''- Reported '' \<or> startswith ''- Reported '' ''- Media:'')"
    "\<not> (startswith ''- Media:'' ''- Map:'' \<or> startswith ''- Map:'' ''- Media:'')"
    "\<not> (startswith ''- Media:'' ''- Checklist:'' \<or> startswith ''- Checklist:'' ''- Media:'')"
    "\<not> (startswith ''- Media:'' ''- Comments:'' \<or> startswith ''- Comments:'' ''- Media:'')"
    by (simp_all add: startswith_def)
  then have "\<not> startswith line ''- Reported ''" "\<not> startswith line ''- Map:''"
    "\<not> startswith line ''- Checklist:''" "\<not> startswith line ''- Comments:''"
    using startswith_both [OF assms] by blast+
  with assms show ?thesis by (simp add: update_current_def)
qed

lemma update_current_reported_nomatch:
  assumes "startswith line ''- Reported ''" and "re_match reported_re line = None"
  shows "update_current cur line = Inr cur"
  using assms by (simp add: update_current_def)

lemma update_current_map_nomatch:
  assumes "startswith line ''- Map:''" and "re_search coords_re line = None"
  shows "update_current cur line = Inr cur"
proof -
  have "\<not> (startswith ''- Map:'' ''- Reported '' \<or> startswith ''- Reported '' ''- Map:'')"
    by (simp add: startswith_def)
  then have "\<not> startswith line ''- Reported ''"
    using startswith_both [OF assms(1)] by blast
  with assms show ?thesis by (simp add: update_current_def)
qed

text \<open>
  C6. The text extractor is total: for every text it returns a list of records (possibly
  empty), and every step of its loop returns; no exception can arise, since the only
  call that could raise, \<^verbatim>\<open>float\<close>, is given what the coordinate pattern captured, which
  is a decimal number. A line that matches no recognised pattern leaves the loop state
  unchanged: a line that is no header and either does not start with the bullet
  \<^verbatim>\<open>"- "\<close>, or is a Media line, or is a Reported or Map line whose pattern does not match.
\<close>

theorem parse_sightings_total:
  "(\<exists>records. parse_sightings body = Inr records) \<and>
   (\<exists>st'. process_line st raw = Inr st') \<and>
   (re_match header_re (strip raw) = None \<and>
    (\<not> startswith (strip raw) ''- '' \<or> startswith (strip raw) ''- Media:'' \<or>
     startswith (strip raw) ''- Reported '' \<and> re_match reported_re (strip raw) = None \<or>
     startswith (strip raw) ''- Map:'' \<and> re_search coords_re (strip raw) = None)
    \<longrightarrow> process_line st raw = Inr st)"
proof (intro conjI impI)
  from parse_lines_total obtain st' where "parse_lines (splitlines body) (None, []) = Inr st'"
    by blast
  then show "\<exists>records. parse_sightings body = Inr records"
    by (simp add: parse_sightings_def)
  show "\<exists>st'. process_line st raw = Inr st'" by (rule process_line_total)
next
  assume a: "re_match header_re (strip raw) = None \<and>
    (\<not> startswith (strip raw) ''- '' \<or> startswith (strip raw) ''- Media:'' \<or>
     startswith (strip raw) ''- Reported '' \<and> re_match reported_re (strip raw) = None \<or>
     startswith (strip raw) ''- Map:'' \<and> re_search coords_re (strip raw) = None)"
  then have same: "update_current cur (strip raw) = Inr cur" for cur
    using update_current_no_bullet update_current_media update_current_reported_nomatch
      update_current_map_nomatch by blast
  show "process_line st raw = Inr st"
  proof (cases "fst st")
    case None
    with a show ?thesis by (simp add: process_line_def)
  next
    case (Some cur)
    then have "st = (Some cur, snd st)" by (metis prod.collapse)
    with a same [of cur] Some show ?thesis by (simp add: process_line_def)
  qed
qed


theorem parse_sightings_total_witness:
  "re_match header_re (strip ''*** Species Summary:'') = None \<and>
   \<not> startswith (strip ''*** Species Summary:'') ''- '' \<and>
   process_line (Some (new_sighting ''Snowy Owl'' ''Bubo scandiacus'' ''1'' False), [])
     ''*** Species Summary:''
   = Inr (Some (new_sighting ''Snowy Owl'' ''Bubo scandiacus'' ''1'' False), []) \<and>
   (\<exists>records. parse_sightings ''*** Species Summary:'' = Inr records)"
proof -
  have h: "re_match header_re (strip ''*** Species Summary:'') = None"
    by (simp add: regex_eval string_eval)
  have b: "\<not> startswith (strip ''*** Species Summary:'') ''- ''"
    by (simp add: regex_eval string_eval)
  from parse_sightings_total
    [of "''*** Species Summary:''"
        "(Some (new_sighting ''Snowy Owl'' ''Bubo scandiacus'' ''1'' False), [])"
        "''*** Species Summary:''"] h b
  show ?thesis by blast
qed

section \<open>The text extractor: when a record is finalized\<close>

lemmas parse_eval = parse_sightings_def process_line_def update_current_def flush_def
  lat_truthy_def float_truthy_def new_sighting_def splitlines_def py_float_def unsigned_float_def
  decimal_value_def digits_value_def after_first_colon_def lstrip_chars_def strip_chars_def

text \<open>
  C1. The extractor appends the record under construction when \<^verbatim>\<open>current.get("lat")\<close> is
  true (lines 61 and 103), which is not the same as the record having coordinates: the
  latitude \<open>0.0\<close> is a float whose truth value is false. For the alert below, of a place on
  the equator, the loop ends with a record that has the coordinates \<open>(0.0, -78.5)\<close>, and the
  extractor returns no record at all. Line 97 of the same function, and the API adapter
  at line 141, test \<^verbatim>\<open>is None\<close> instead.
\<close>

theorem zero_latitude_dropped:
  "parse_lines
     (splitlines (''Snowy Owl (Bubo scandiacus) (1)'' @ [CHR 0x0A] @
                  ''- Reported Feb 05, 2026 15:08 by Jane Doe'' @ [CHR 0x0A] @
                  ''- Mitad del Mundo, Pichincha'' @ [CHR 0x0A] @
                  ''- Map: http://maps.google.com/?ie=UTF8&t=p&z=13&q=0.0,-78.5&ll=0.0,-78.5''))
     (None, [])
   = Inr (Some \<lparr>species = PStr ''Snowy Owl'', scientific = PStr ''Bubo scandiacus'',
                 count_s = ''1'', confirmed = PBool False,
                 location = PStr ''Mitad del Mundo, Pichincha'', lat = Some (Fin 0),
                 lon = Some (Fin (- (157 / 2))), date = ''Feb 05, 2026 15:08'',
                 observer = PStr ''Jane Doe'', comments = [], checklist = []\<rparr>, []) \<and>
   parse_sightings
     (''Snowy Owl (Bubo scandiacus) (1)'' @ [CHR 0x0A] @
      ''- Reported Feb 05, 2026 15:08 by Jane Doe'' @ [CHR 0x0A] @
      ''- Mitad del Mundo, Pichincha'' @ [CHR 0x0A] @
      ''- Map: http://maps.google.com/?ie=UTF8&t=p&z=13&q=0.0,-78.5&ll=0.0,-78.5'')
   = Inr []"
  by (simp add: parse_eval regex_eval string_eval float_eval)

section \<open>The text extractor: header lines\<close>








text \<open>
  From here on \<open>run\<close> is unfolded one constructor at a time, by the equations below.
\<close>

declare run.simps [simp del]













lemma concat_head:
  assumes "xs = x # xs'" and "f x = y # ys"
  shows "\<exists>zs. concat (map f xs) = y # zs"
  using assms by simp



















end
